theory Spec2Isabelle
  imports Complex_Main "HOL-Library.Word"
begin

section \<open>Handles, errors and the command envelope\<close>

text \<open>
  Boundary handles are \<^verbatim>\<open>bigint\<close> values; \<^verbatim>\<open>INVALID_HANDLE = 0n\<close> is the failure
  sentinel. Objects of the driver (connections, transactions, streams) live in a store and
  are named by references, because one stream is shared by the connection and the
  transaction that track it.
\<close>

type_synonym handle = nat
type_synonym ref = nat

definition INVALID_HANDLE :: handle where
  "INVALID_HANDLE = 0"

datatype IsolationLevel =
  READ_UNCOMMITTED | READ_COMMITTED | REPEATABLE_READ | SNAPSHOT | SERIALIZABLE

datatype CommandType = CmdText | CmdStoredProcedure

text \<open>
  Every \<^verbatim>\<open>throw\<close> of the modelled sources is a constructor. \<open>BoundaryThrew\<close> is an
  exception raised by the boundary's \<^verbatim>\<open>streamClose\<close> itself (the sources catch it in
  their cleanup loops), \<open>CallbackThrew\<close> one raised by a foreign close callback,
  \<open>RangeError\<close> the one the engine raises in \<^verbatim>\<open>toISOString\<close> and in a call with
  too many arguments.
  \<open>DanglingReference\<close> exists only in the model: a reference that names no object of the
  store, which the source language rules out.
\<close>

datatype error =
    TransactionNoLongerActive
  | ConnectionIsClosed
  | AbortError
  | CommitFailed string
  | RollbackFailed string
  | BeginTransactionFailed string
  | CommandFailed string
  | StreamError string
  | JsonSyntaxError
  | RangeError
  | BoundaryThrew
  | CallbackThrew nat
  | DanglingReference

subsection \<open>Parameters and their serialized form (types.ts)\<close>

text \<open>
  A \<^verbatim>\<open>Date\<close> holds a time value (milliseconds since the epoch) or, when it was made
  from something that is no date, \<^verbatim>\<open>NaN\<close>: the invalid date. A string whose code units
  are all below 256 (the only kind \<^verbatim>\<open>String.fromCharCode\<close> builds from bytes) is a HOL
  string, one \<^typ>\<open>char\<close> per code unit.
\<close>

datatype Date = ValidDate int | InvalidDate
type_synonym SqlType = string

text \<open>
  What the sources take from the JavaScript engine and the model takes as a parameter: the
  ISO-8601 text \<^verbatim>\<open>Date.prototype.toISOString\<close> gives for a time value, and the largest
  number of arguments one call may pass (the engine raises \<^verbatim>\<open>RangeError\<close> beyond it;
  the number differs between engines and with the size of the stack).
\<close>

record Engine =
  isoText :: "int \<Rightarrow> string"
  maxArguments :: nat

datatype ParamValue =
    PString string
  | PNumber real
  | PBoolean bool
  | PDate Date
  | PNull
  | PUndefined
  | PUint8Array "8 word list"

record TypedParam =
  tp_value :: ParamValue
  tp_type :: SqlType
  tp_output :: "bool option"

datatype Param = Plain ParamValue | Typed TypedParam

type_synonym Params = "(string \<times> Param) list"

datatype SerializedValue =
    SNull
  | SString string
  | SNumber real
  | SBoolean bool

record SerializedParam =
  sp_name :: string
  sp_value :: SerializedValue
  sp_type :: "string option"
  sp_output :: "bool option"

record SerializedCommand =
  sql :: string
  params :: "SerializedParam list"
  transaction_id :: "string option"
  command_timeout_ms :: "real option"
  command_type :: CommandType


section \<open>Command codec (connection.ts)\<close>

subsection \<open>The built-in \<^verbatim>\<open>btoa\<close>\<close>

text \<open>
  \<^verbatim>\<open>btoa\<close> is a built-in of the platform; this is its definition by the HTML standard,
  base64 (RFC 4648, section 4) with padding, on the code units of its argument.
\<close>

definition b64_alphabet :: string where
  "b64_alphabet = ''ABCDEFGHIJKLMNOPQRSTUVWXYZabcdefghijklmnopqrstuvwxyz0123456789+/''"

definition b64_char :: "nat \<Rightarrow> char" where
  "b64_char n = b64_alphabet ! n"

fun encode_groups :: "nat list \<Rightarrow> string" where
  "encode_groups (a # b # c # rest) =
     b64_char (a div 4) # b64_char ((a mod 4) * 16 + b div 16) #
     b64_char ((b mod 16) * 4 + c div 64) # b64_char (c mod 64) # encode_groups rest"
| "encode_groups [a, b] =
     [b64_char (a div 4), b64_char ((a mod 4) * 16 + b div 16), b64_char ((b mod 16) * 4), CHR ''='']"
| "encode_groups [a] =
     [b64_char (a div 4), b64_char ((a mod 4) * 16), CHR ''='', CHR ''='']"
| "encode_groups [] = []"

definition btoa :: "string \<Rightarrow> string" where
  "btoa s = encode_groups (map of_char s)"

text \<open>\<^verbatim>\<open>val.toISOString()\<close>: \<^verbatim>\<open>RangeError\<close> on an invalid date.\<close>

definition toISOString :: "Engine \<Rightarrow> Date \<Rightarrow> error + string" where
  "toISOString js d =
     (case d of
        InvalidDate \<Rightarrow> Inl RangeError
      | ValidDate t \<Rightarrow> Inr (isoText js t))"

text \<open>\<^verbatim>\<open>String.fromCharCode(...val)\<close> on the elements of a \<^verbatim>\<open>Uint8Array\<close>: the
  spread passes every element as one argument of the call, so the call raises
  \<^verbatim>\<open>RangeError\<close> when the array has more elements than a call may have arguments.\<close>

definition fromCharCode :: "Engine \<Rightarrow> 8 word list \<Rightarrow> error + string" where
  "fromCharCode js val =
     (if maxArguments js < length val then Inl RangeError
      else Inr (map (\<lambda>b. char_of (unat b)) val))"

subsection \<open>serializeValue, serializeParams, serializeCommand\<close>

fun serializeValue :: "Engine \<Rightarrow> ParamValue \<Rightarrow> error + SerializedValue" where
  "serializeValue js PNull = Inr SNull"
| "serializeValue js PUndefined = Inr SNull"
| "serializeValue js (PDate d) =
     (case toISOString js d of
        Inl e \<Rightarrow> Inl e
      | Inr text \<Rightarrow> Inr (SString text))"
| "serializeValue js (PUint8Array val) =
     (case fromCharCode js val of
        Inl e \<Rightarrow> Inl e
      | Inr binary \<Rightarrow> Inr (SString (btoa binary)))"
| "serializeValue js (PString v) = Inr (SString v)"
| "serializeValue js (PNumber v) = Inr (SNumber v)"
| "serializeValue js (PBoolean v) = Inr (SBoolean v)"

text \<open>The body of the \<^verbatim>\<open>map\<close> in \<^verbatim>\<open>serializeParams\<close>. \<open>isTyped\<close> is the test
  \<^verbatim>\<open>typeof raw === "object" && "value" in raw && "type" in raw\<close>, which holds of a
  \<^verbatim>\<open>TypedParam\<close> and of no \<^verbatim>\<open>ParamValue\<close>. The member \<^verbatim>\<open>output\<close> is written
  only when the declared flag is truthy. An exception of \<^verbatim>\<open>serializeValue\<close> leaves the
  callback, and with it \<^verbatim>\<open>map\<close>, which visits the entries in order.\<close>

definition serializeParam :: "Engine \<Rightarrow> string \<times> Param \<Rightarrow> error + SerializedParam" where
  "serializeParam js entry =
     (let name = fst entry; raw = snd entry;
          isTyped = (case raw of Typed _ \<Rightarrow> True | Plain _ \<Rightarrow> False);
          val = (case raw of Typed tp \<Rightarrow> tp_value tp | Plain v \<Rightarrow> v);
          ty = (case raw of Typed tp \<Rightarrow> Some (tp_type tp) | Plain _ \<Rightarrow> None);
          output = (case raw of Typed tp \<Rightarrow> tp_output tp | Plain _ \<Rightarrow> None)
      in case serializeValue js val of
           Inl e \<Rightarrow> Inl e
         | Inr v \<Rightarrow>
             Inr \<lparr>sp_name = name,
                  sp_value = v,
                  sp_type = ty,
                  sp_output = (if output = Some True then Some True else None)\<rparr>)"

fun map_entries :: "('a \<Rightarrow> error + 'b) \<Rightarrow> 'a list \<Rightarrow> error + 'b list" where
  "map_entries g [] = Inr []"
| "map_entries g (x # xs) =
     (case g x of
        Inl e \<Rightarrow> Inl e
      | Inr y \<Rightarrow> (case map_entries g xs of
                    Inl e \<Rightarrow> Inl e
                  | Inr ys \<Rightarrow> Inr (y # ys)))"

definition serializeParams :: "Engine \<Rightarrow> Params option \<Rightarrow> error + SerializedParam list" where
  "serializeParams js ps =
     (case ps of
        None \<Rightarrow> Inr []
      | Some entries \<Rightarrow> map_entries (serializeParam js) entries)"

text \<open>
  \<^verbatim>\<open>CommandOptions\<close>: absent options are the record with every member absent.
  \<open>opt_transaction\<close> is the transaction passed, by reference; \<open>signalAborted\<close> says
  that a signal was passed and is aborted. The command is the object handed to
  \<^verbatim>\<open>JSON.stringify\<close>; its transaction id is given resolved
  (\<^verbatim>\<open>opts?.transaction?.id ?? null\<close>).
\<close>

record CommandOptions =
  opt_transaction :: "ref option"
  commandTimeout :: "real option"
  commandType :: "CommandType option"
  signalAborted :: bool

definition no_options :: CommandOptions where
  "no_options = \<lparr>opt_transaction = None, commandTimeout = None, commandType = None,
                 signalAborted = False\<rparr>"

definition serializeCommand ::
  "Engine \<Rightarrow> string \<Rightarrow> Params option \<Rightarrow> string option \<Rightarrow> CommandOptions
     \<Rightarrow> error + SerializedCommand" where
  "serializeCommand js q ps tid opts =
     (case serializeParams js ps of
        Inl e \<Rightarrow> Inl e
      | Inr sps \<Rightarrow>
          Inr \<lparr>sql = q,
               params = sps,
               transaction_id = tid,
               command_timeout_ms = commandTimeout opts,
               command_type = (case commandType opts of None \<Rightarrow> CmdText | Some ct \<Rightarrow> ct)\<rparr>)"

subsection \<open>The built-in \<^verbatim>\<open>atob\<close> and the decoding of a returned payload\<close>








section \<open>The boundary (runtime.ts) and the object store\<close>

text \<open>
  Every call that crosses the boundary is recorded, in order, in the trace of the world.
  \<open>CallbackRun n\<close> records one invocation of the foreign close callback \<open>n\<close>; it is
  an observation, not a boundary call.
\<close>

datatype event =
    PoolRelease handle handle
  | Disconnect handle
  | Query handle SerializedCommand
  | ExecuteNonquery handle SerializedCommand
  | Exec handle SerializedCommand
  | QueryStreamOpen handle SerializedCommand
  | StreamNext handle
  | StreamClose handle
  | BeginTransaction handle string IsolationLevel
  | Commit handle string
  | Rollback handle string
  | LastError handle
  | CallbackRun nat

text \<open>
  What \<^verbatim>\<open>JSON.parse\<close> makes of the text \<^verbatim>\<open>streamNext\<close> returned: not JSON at
  all, the JSON value \<^verbatim>\<open>null\<close>, an object with an \<^verbatim>\<open>__error\<close> member, or a row
  (kept as its text).
\<close>

datatype payload = NotJson | JsonNull | ErrorObject string | RowJson string

text \<open>
  The boundary is a black box: the model takes its answers as functions of the calls made
  so far (the trace) and of the arguments, so that a call may fail once and succeed later.
  Results that are JSON text stay text; \<^verbatim>\<open>JSON.parse\<close> of a command result is not
  modelled. The \<^verbatim>\<open>void\<close> operations \<^verbatim>\<open>poolRelease\<close> and \<^verbatim>\<open>disconnect\<close> return
  nothing; \<^verbatim>\<open>streamClose\<close> may raise, which the cleanup loops of the sources catch.
\<close>

record RuntimeFFI =
  ffi_query :: "event list \<Rightarrow> handle \<Rightarrow> SerializedCommand \<Rightarrow> string option"
  ffi_executeNonquery :: "event list \<Rightarrow> handle \<Rightarrow> SerializedCommand \<Rightarrow> string option"
  ffi_exec :: "event list \<Rightarrow> handle \<Rightarrow> SerializedCommand \<Rightarrow> string option"
  ffi_queryStream :: "event list \<Rightarrow> handle \<Rightarrow> SerializedCommand \<Rightarrow> handle"
  ffi_streamNext :: "event list \<Rightarrow> handle \<Rightarrow> payload option"
  ffi_streamCloseThrows :: "event list \<Rightarrow> handle \<Rightarrow> bool"
  ffi_beginTransaction :: "event list \<Rightarrow> handle \<Rightarrow> string \<Rightarrow> string option"
  ffi_commit :: "event list \<Rightarrow> handle \<Rightarrow> string \<Rightarrow> string option"
  ffi_rollback :: "event list \<Rightarrow> handle \<Rightarrow> string \<Rightarrow> string option"
  ffi_lastError :: "event list \<Rightarrow> handle \<Rightarrow> string option"

text \<open>
  A close callback is one of the two closures the sources register
  (\<^verbatim>\<open>() => this.#streams.delete(stream)\<close> in the connection and in the transaction, where
  \<^verbatim>\<open>stream\<close> is the stream the callback is registered on) or a foreign callback, known
  by a number, that is observed when it runs and may throw.
\<close>

datatype callback =
    UntrackFromConnection ref
  | UntrackFromTransaction ref
  | Foreign nat bool

record QueryStream =
  cursorId :: handle
  isDone :: bool
  isClosed :: bool
  onCloseCallbacks :: "callback list"

record Transaction =
  txId :: string
  isolation :: IsolationLevel
  committed :: bool
  rolledBack :: bool
  txConnId :: handle
  txStreams :: "ref list"

record MssqlConnection =
  connId :: handle
  poolId :: "handle option"
  disposed :: bool
  hasError :: bool
  streams :: "ref list"
  transactions :: "ref list"

record world =
  conns :: "ref \<rightharpoonup> MssqlConnection"
  txs :: "ref \<rightharpoonup> Transaction"
  strs :: "ref \<rightharpoonup> QueryStream"
  trace :: "event list"

definition emit :: "event \<Rightarrow> world \<Rightarrow> world" where
  "emit e w = w\<lparr>trace := trace w @ [e]\<rparr>"

text \<open>A JavaScript \<^verbatim>\<open>Set\<close> iterates in insertion order and holds no element twice.\<close>

definition set_add :: "'a \<Rightarrow> 'a list \<Rightarrow> 'a list" where
  "set_add x xs = (if x \<in> set xs then xs else xs @ [x])"

definition set_delete :: "'a \<Rightarrow> 'a list \<Rightarrow> 'a list" where
  "set_delete x xs = removeAll x xs"

section \<open>QueryStream (stream.ts)\<close>

text \<open>Running one close callback of stream \<open>r\<close>: the error it throws, if any, and the world after.\<close>

fun run_callback :: "ref \<Rightarrow> callback \<Rightarrow> world \<Rightarrow> error option \<times> world" where
  "run_callback r (UntrackFromConnection c) w =
     (None, case conns w c of
              None \<Rightarrow> w
            | Some cn \<Rightarrow> w\<lparr>conns := (conns w)(c \<mapsto> cn\<lparr>streams := set_delete r (streams cn)\<rparr>)\<rparr>)"
| "run_callback r (UntrackFromTransaction t) w =
     (None, case txs w t of
              None \<Rightarrow> w
            | Some tx \<Rightarrow> w\<lparr>txs := (txs w)(t \<mapsto> tx\<lparr>txStreams := set_delete r (txStreams tx)\<rparr>)\<rparr>)"
| "run_callback r (Foreign n throws) w =
     (if throws then Some (CallbackThrew n) else None, emit (CallbackRun n) w)"

text \<open>\<^verbatim>\<open>_onClose(cb)\<close>: on a closed stream the callback runs at once (and its exception
  propagates); otherwise it is appended to the list.\<close>

definition onClose :: "ref \<Rightarrow> callback \<Rightarrow> world \<Rightarrow> error option \<times> world" where
  "onClose r cb w =
     (case strs w r of
        None \<Rightarrow> (Some DanglingReference, w)
      | Some s \<Rightarrow>
          if isClosed s then run_callback r cb w
          else (None, w\<lparr>strs := (strs w)(r \<mapsto> s\<lparr>onCloseCallbacks := onCloseCallbacks s @ [cb]\<rparr>)\<rparr>))"

text \<open>\<^verbatim>\<open>close()\<close>: the flag is set first, then the boundary is called, then the callbacks
  run, each under its own \<^verbatim>\<open>try/catch\<close>. An exception of the boundary call leaves
  \<^verbatim>\<open>close()\<close> before the callbacks.\<close>

definition run_callbacks :: "ref \<Rightarrow> callback list \<Rightarrow> world \<Rightarrow> world" where
  "run_callbacks r cbs w = fold (\<lambda>cb w'. snd (run_callback r cb w')) cbs w"

definition close :: "RuntimeFFI \<Rightarrow> ref \<Rightarrow> world \<Rightarrow> error option \<times> world" where
  "close f r w =
     (case strs w r of
        None \<Rightarrow> (Some DanglingReference, w)
      | Some s \<Rightarrow>
          if isClosed s then (None, w)
          else
            let w1 = w\<lparr>strs := (strs w)(r \<mapsto> s\<lparr>isClosed := True\<rparr>)\<rparr>;
                w2 = emit (StreamClose (cursorId s)) w1
            in if ffi_streamCloseThrows f (trace w1) (cursorId s) then (Some BoundaryThrew, w2)
               else (None,
                     run_callbacks r (onCloseCallbacks s)
                       (w2\<lparr>strs := (strs w2)(r \<mapsto> s\<lparr>isClosed := True, onCloseCallbacks := []\<rparr>)\<rparr>)))"

text \<open>\<^verbatim>\<open>#fetchNext()\<close>: \<open>Inr None\<close> is \<^verbatim>\<open>null\<close>, \<open>Inr (Some row)\<close> a row.
  \<open>parsed_row\<close> is the part after the boundary call: \<^verbatim>\<open>null\<close> from the boundary,
  \<^verbatim>\<open>JSON.parse\<close>, and the test for an \<^verbatim>\<open>__error\<close> member.\<close>

definition parsed_row :: "payload option \<Rightarrow> error + string option" where
  "parsed_row json =
     (case json of
        None \<Rightarrow> Inr None
      | Some NotJson \<Rightarrow> Inl JsonSyntaxError
      | Some JsonNull \<Rightarrow> Inr None
      | Some (ErrorObject m) \<Rightarrow> Inl (StreamError m)
      | Some (RowJson row) \<Rightarrow> Inr (Some row))"

definition fetchNext :: "RuntimeFFI \<Rightarrow> ref \<Rightarrow> world \<Rightarrow> (error + string option) \<times> world" where
  "fetchNext f r w =
     (case strs w r of
        None \<Rightarrow> (Inl DanglingReference, w)
      | Some s \<Rightarrow>
          if isDone s \<or> isClosed s then (Inr None, w)
          else (parsed_row (ffi_streamNext f (trace w) (cursorId s)),
                emit (StreamNext (cursorId s)) w))"

definition set_done :: "ref \<Rightarrow> world \<Rightarrow> world" where
  "set_done r w =
     (case strs w r of
        None \<Rightarrow> w
      | Some s \<Rightarrow> w\<lparr>strs := (strs w)(r \<mapsto> s\<lparr>isDone := True\<rparr>)\<rparr>)"

text \<open>The \<^verbatim>\<open>finally { this.close(); }\<close> of the generator: an exception of
  \<^verbatim>\<open>close()\<close> replaces the pending completion.\<close>

definition finally_close ::
  "RuntimeFFI \<Rightarrow> ref \<Rightarrow> (error + string option) \<Rightarrow> world \<Rightarrow> (error + string option) \<times> world" where
  "finally_close f r pending w =
     (case close f r w of
        (Some e, w') \<Rightarrow> (Inl e, w')
      | (None, w') \<Rightarrow> (pending, w'))"

text \<open>
  One resumption (\<^verbatim>\<open>next()\<close>) of a generator made by \<^verbatim>\<open>[Symbol.asyncIterator]()\<close>
  that has not completed: \<open>Inr (Some row)\<close> is a yielded row, \<open>Inr None\<close> the
  completion of the generator, \<open>Inl e\<close> its completion by an exception.
\<close>

definition iterNext :: "RuntimeFFI \<Rightarrow> ref \<Rightarrow> world \<Rightarrow> (error + string option) \<times> world" where
  "iterNext f r w =
     (case strs w r of
        None \<Rightarrow> (Inl DanglingReference, w)
      | Some s \<Rightarrow>
          if isDone s then finally_close f r (Inr None) w
          else
            (let (row, w1) = fetchNext f r w
             in case row of
                  Inl e \<Rightarrow> finally_close f r (Inl e) w1
                | Inr None \<Rightarrow> finally_close f r (Inr None) (set_done r w1)
                | Inr (Some v) \<Rightarrow> (Inr (Some v), w1)))"

text \<open>
  \<^verbatim>\<open>toArray()\<close> drives a fresh generator to its completion. The loop has no bound in
  the source (the boundary decides when the rows end), so the model counts resumptions:
  \<open>None\<close> says the count ran out before the generator completed.
\<close>

fun toArray_loop ::
  "nat \<Rightarrow> RuntimeFFI \<Rightarrow> ref \<Rightarrow> string list \<Rightarrow> world \<Rightarrow> ((error + string list) \<times> world) option" where
  "toArray_loop 0 f r results w = None"
| "toArray_loop (Suc n) f r results w =
     (case iterNext f r w of
        (Inl e, w') \<Rightarrow> Some (Inl e, w')
      | (Inr None, w') \<Rightarrow> Some (Inr results, w')
      | (Inr (Some row), w') \<Rightarrow> toArray_loop n f r (results @ [row]) w')"

definition toArray :: "nat \<Rightarrow> RuntimeFFI \<Rightarrow> ref \<Rightarrow> world \<Rightarrow> ((error + string list) \<times> world) option" where
  "toArray fuel f r w = toArray_loop fuel f r [] w"

text \<open>The \<^verbatim>\<open>pull\<close> of \<^verbatim>\<open>toReadableStream()\<close>: \<open>Inr (Some row)\<close> is a row put in
  the queue, \<open>Inr None\<close> the end of the readable stream.\<close>

definition pull :: "RuntimeFFI \<Rightarrow> ref \<Rightarrow> world \<Rightarrow> (error + string option) \<times> world" where
  "pull f r w =
     (let (row, w1) = fetchNext f r w
      in case row of
           Inl e \<Rightarrow> (Inl e, w1)
         | Inr None \<Rightarrow> finally_close f r (Inr None) (set_done r w1)
         | Inr (Some v) \<Rightarrow> (Inr (Some v), w1))"

section \<open>Transaction (transaction.ts)\<close>

definition isActive :: "Transaction \<Rightarrow> bool" where
  "isActive tx = (\<not> committed tx \<and> \<not> rolledBack tx)"

definition ensureActive :: "Transaction \<Rightarrow> error option" where
  "ensureActive tx = (if \<not> isActive tx then Some TransactionNoLongerActive else None)"

text \<open>The two closures \<^verbatim>\<open>beginTransaction\<close> hands to the constructor; they capture the
  connection's handle.\<close>

definition commitFn :: "RuntimeFFI \<Rightarrow> handle \<Rightarrow> string \<Rightarrow> world \<Rightarrow> error option \<times> world" where
  "commitFn f c i w =
     (case ffi_commit f (trace w) c i of
        None \<Rightarrow> (None, emit (Commit c i) w)
      | Some err \<Rightarrow> (Some (CommitFailed err), emit (Commit c i) w))"

definition rollbackFn :: "RuntimeFFI \<Rightarrow> handle \<Rightarrow> string \<Rightarrow> world \<Rightarrow> error option \<times> world" where
  "rollbackFn f c i w =
     (case ffi_rollback f (trace w) c i of
        None \<Rightarrow> (None, emit (Rollback c i) w)
      | Some err \<Rightarrow> (Some (RollbackFailed err), emit (Rollback c i) w))"

definition close_each :: "RuntimeFFI \<Rightarrow> ref list \<Rightarrow> world \<Rightarrow> world" where
  "close_each f rs w = fold (\<lambda>s w'. snd (close f s w')) rs w"

definition closeAllStreams :: "RuntimeFFI \<Rightarrow> ref \<Rightarrow> world \<Rightarrow> world" where
  "closeAllStreams f t w =
     (case txs w t of
        None \<Rightarrow> w
      | Some tx \<Rightarrow> close_each f (txStreams tx) (w\<lparr>txs := (txs w)(t \<mapsto> tx\<lparr>txStreams := []\<rparr>)\<rparr>))"

definition set_committed :: "ref \<Rightarrow> world \<Rightarrow> world" where
  "set_committed t w =
     (case txs w t of
        None \<Rightarrow> w
      | Some tx \<Rightarrow> w\<lparr>txs := (txs w)(t \<mapsto> tx\<lparr>committed := True\<rparr>)\<rparr>)"

definition set_rolledBack :: "ref \<Rightarrow> world \<Rightarrow> world" where
  "set_rolledBack t w =
     (case txs w t of
        None \<Rightarrow> w
      | Some tx \<Rightarrow> w\<lparr>txs := (txs w)(t \<mapsto> tx\<lparr>rolledBack := True\<rparr>)\<rparr>)"

definition commit :: "RuntimeFFI \<Rightarrow> ref \<Rightarrow> world \<Rightarrow> error option \<times> world" where
  "commit f t w =
     (case txs w t of
        None \<Rightarrow> (Some DanglingReference, w)
      | Some tx \<Rightarrow>
          (case ensureActive tx of
             Some e \<Rightarrow> (Some e, w)
           | None \<Rightarrow>
               (case commitFn f (txConnId tx) (txId tx) w of
                  (Some e, w1) \<Rightarrow> (Some e, w1)
                | (None, w1) \<Rightarrow> (None, set_committed t w1))))"

definition rollback :: "RuntimeFFI \<Rightarrow> ref \<Rightarrow> world \<Rightarrow> error option \<times> world" where
  "rollback f t w =
     (case txs w t of
        None \<Rightarrow> (Some DanglingReference, w)
      | Some tx \<Rightarrow>
          (case ensureActive tx of
             Some e \<Rightarrow> (Some e, w)
           | None \<Rightarrow>
               (case rollbackFn f (txConnId tx) (txId tx) w of
                  (Some e, w1) \<Rightarrow> (Some e, w1)
                | (None, w1) \<Rightarrow> (None, set_rolledBack t w1))))"

text \<open>\<^verbatim>\<open>_forceInactive()\<close>, which is also \<^verbatim>\<open>[Symbol.dispose]()\<close>.\<close>

definition forceInactive :: "RuntimeFFI \<Rightarrow> ref \<Rightarrow> world \<Rightarrow> world" where
  "forceInactive f t w =
     (let w1 = closeAllStreams f t w
      in case txs w1 t of
           None \<Rightarrow> w1
         | Some tx \<Rightarrow> if isActive tx then set_rolledBack t w1 else w1)"

text \<open>\<^verbatim>\<open>[Symbol.asyncDispose]()\<close>, which is also \<^verbatim>\<open>_dispose()\<close>: the rollback runs under
  \<^verbatim>\<open>try/catch\<close>, and the flag is set whether it failed or not.\<close>

definition tx_asyncDispose :: "RuntimeFFI \<Rightarrow> ref \<Rightarrow> world \<Rightarrow> world" where
  "tx_asyncDispose f t w =
     (let w1 = closeAllStreams f t w
      in case txs w1 t of
           None \<Rightarrow> w1
         | Some tx \<Rightarrow>
             if isActive tx
             then set_rolledBack t (snd (rollbackFn f (txConnId tx) (txId tx) w1))
             else w1)"

text \<open>\<^verbatim>\<open>_trackStream(stream)\<close>.\<close>

definition trackStream :: "ref \<Rightarrow> ref \<Rightarrow> world \<Rightarrow> error option \<times> world" where
  "trackStream t s w =
     (case txs w t of
        None \<Rightarrow> (Some DanglingReference, w)
      | Some tx \<Rightarrow>
          onClose s (UntrackFromTransaction t)
            (w\<lparr>txs := (txs w)(t \<mapsto> tx\<lparr>txStreams := set_add s (txStreams tx)\<rparr>)\<rparr>))"


section \<open>MssqlConnection (connection.ts)\<close>

definition ensureOpen :: "MssqlConnection \<Rightarrow> CommandOptions \<Rightarrow> world \<Rightarrow> error option" where
  "ensureOpen cn opts w =
     (if disposed cn then Some ConnectionIsClosed
      else if signalAborted opts then Some AbortError
      else (case opt_transaction opts of
              None \<Rightarrow> None
            | Some t \<Rightarrow> (case txs w t of
                           None \<Rightarrow> Some DanglingReference
                         | Some tx \<Rightarrow> ensureActive tx)))"

definition transaction_id_of :: "CommandOptions \<Rightarrow> world \<Rightarrow> string option" where
  "transaction_id_of opts w =
     (case opt_transaction opts of
        None \<Rightarrow> None
      | Some t \<Rightarrow> map_option txId (txs w t))"

definition set_hasError :: "ref \<Rightarrow> world \<Rightarrow> world" where
  "set_hasError c w =
     (case conns w c of
        None \<Rightarrow> w
      | Some cn \<Rightarrow> w\<lparr>conns := (conns w)(c \<mapsto> cn\<lparr>hasError := True\<rparr>)\<rparr>)"

text \<open>The failure branch shared by the commands:
  \<^verbatim>\<open>this.#hasError = true; throw new Error(this.#ffi.lastError(this.#connId) ?? msg)\<close>.\<close>

definition command_failed :: "RuntimeFFI \<Rightarrow> ref \<Rightarrow> handle \<Rightarrow> string \<Rightarrow> world \<Rightarrow> error \<times> world" where
  "command_failed f c h msg w =
     (let w1 = set_hasError c w
      in (CommandFailed (case ffi_lastError f (trace w1) h of None \<Rightarrow> msg | Some m \<Rightarrow> m),
          emit (LastError h) w1))"

definition query ::
  "Engine \<Rightarrow> RuntimeFFI \<Rightarrow> ref \<Rightarrow> string \<Rightarrow> Params option \<Rightarrow> CommandOptions \<Rightarrow> world
     \<Rightarrow> (error + string) \<times> world" where
  "query js f c q ps opts w =
     (case conns w c of
        None \<Rightarrow> (Inl DanglingReference, w)
      | Some cn \<Rightarrow>
          (case ensureOpen cn opts w of
             Some e \<Rightarrow> (Inl e, w)
           | None \<Rightarrow>
               (case serializeCommand js q ps (transaction_id_of opts w) opts of
                  Inl e \<Rightarrow> (Inl e, w)
                | Inr cmdJson \<Rightarrow>
                    (let w1 = emit (Query (connId cn) cmdJson) w
                     in case ffi_query f (trace w) (connId cn) cmdJson of
                          None \<Rightarrow> (let (e, w2) = command_failed f c (connId cn) ''Query failed'' w1
                                   in (Inl e, w2))
                        | Some result \<Rightarrow> (Inr result, w1)))))"

definition execute ::
  "Engine \<Rightarrow> RuntimeFFI \<Rightarrow> ref \<Rightarrow> string \<Rightarrow> Params option \<Rightarrow> CommandOptions \<Rightarrow> world
     \<Rightarrow> (error + string) \<times> world" where
  "execute js f c q ps opts w =
     (case conns w c of
        None \<Rightarrow> (Inl DanglingReference, w)
      | Some cn \<Rightarrow>
          (case ensureOpen cn opts w of
             Some e \<Rightarrow> (Inl e, w)
           | None \<Rightarrow>
               (case serializeCommand js q ps (transaction_id_of opts w) opts of
                  Inl e \<Rightarrow> (Inl e, w)
                | Inr cmdJson \<Rightarrow>
                    (let w1 = emit (ExecuteNonquery (connId cn) cmdJson) w
                     in case ffi_executeNonquery f (trace w) (connId cn) cmdJson of
                          None \<Rightarrow> (let (e, w2) = command_failed f c (connId cn) ''Execute failed'' w1
                                   in (Inl e, w2))
                        | Some result \<Rightarrow> (Inr result, w1)))))"

definition exec ::
  "Engine \<Rightarrow> RuntimeFFI \<Rightarrow> ref \<Rightarrow> string \<Rightarrow> Params option \<Rightarrow> CommandOptions \<Rightarrow> world
     \<Rightarrow> (error + string) \<times> world" where
  "exec js f c q ps opts w =
     (case conns w c of
        None \<Rightarrow> (Inl DanglingReference, w)
      | Some cn \<Rightarrow>
          (case ensureOpen cn opts w of
             Some e \<Rightarrow> (Inl e, w)
           | None \<Rightarrow>
               (case serializeCommand js q ps (transaction_id_of opts w) opts of
                  Inl e \<Rightarrow> (Inl e, w)
                | Inr cmdJson \<Rightarrow>
                    (let w1 = emit (Exec (connId cn) cmdJson) w
                     in case ffi_exec f (trace w) (connId cn) cmdJson of
                          None \<Rightarrow> (let (e, w2) = command_failed f c (connId cn) ''Exec failed'' w1
                                   in (Inl e, w2))
                        | Some result \<Rightarrow> (Inr result, w1)))))"

text \<open>
  \<^verbatim>\<open>queryStream\<close>. \<open>r\<close> is the identity of the stream object \<^verbatim>\<open>new\<close> makes, a
  reference not in use. The result is the reference of the stream.
\<close>

definition track_in_connection :: "ref \<Rightarrow> ref \<Rightarrow> world \<Rightarrow> world" where
  "track_in_connection c r w =
     (case conns w c of
        None \<Rightarrow> w
      | Some cn \<Rightarrow> w\<lparr>conns := (conns w)(c \<mapsto> cn\<lparr>streams := set_add r (streams cn)\<rparr>)\<rparr>)"

definition queryStream ::
  "Engine \<Rightarrow> RuntimeFFI \<Rightarrow> ref \<Rightarrow> ref \<Rightarrow> string \<Rightarrow> Params option \<Rightarrow> CommandOptions \<Rightarrow> world
     \<Rightarrow> (error + ref) \<times> world" where
  "queryStream js f c r q ps opts w =
     (case conns w c of
        None \<Rightarrow> (Inl DanglingReference, w)
      | Some cn \<Rightarrow>
          (case ensureOpen cn opts w of
             Some e \<Rightarrow> (Inl e, w)
           | None \<Rightarrow>
               (case serializeCommand js q ps (transaction_id_of opts w) opts of
                  Inl e \<Rightarrow> (Inl e, w)
                | Inr cmdJson \<Rightarrow>
                    (let cursor = ffi_queryStream f (trace w) (connId cn) cmdJson;
                         w1 = emit (QueryStreamOpen (connId cn) cmdJson) w
                     in if cursor = INVALID_HANDLE
                        then (let (e, w2) = command_failed f c (connId cn) ''Failed to open stream'' w1
                              in (Inl e, w2))
                        else
                          (let w2 = w1\<lparr>strs := (strs w1)(r \<mapsto>
                                       \<lparr>cursorId = cursor, isDone = False, isClosed = False,
                                        onCloseCallbacks = []\<rparr>)\<rparr>;
                               w3 = track_in_connection c r w2;
                               w4 = snd (onClose r (UntrackFromConnection c) w3)
                           in case opt_transaction opts of
                                None \<Rightarrow> (Inr r, w4)
                              | Some t \<Rightarrow> (case trackStream t r w4 of
                                             (Some e, w5) \<Rightarrow> (Inl e, w5)
                                           | (None, w5) \<Rightarrow> (Inr r, w5)))))))"

text \<open>
  \<^verbatim>\<open>beginTransaction\<close>. \<open>t\<close> is the identity of the new transaction object and
  \<open>uuid\<close> the value of \<^verbatim>\<open>crypto.randomUUID()\<close>.
\<close>

definition beginTransaction ::
  "RuntimeFFI \<Rightarrow> ref \<Rightarrow> ref \<Rightarrow> string \<Rightarrow> IsolationLevel \<Rightarrow> world \<Rightarrow> (error + ref) \<times> world" where
  "beginTransaction f c t uuid level w =
     (case conns w c of
        None \<Rightarrow> (Inl DanglingReference, w)
      | Some cn \<Rightarrow>
          (case ensureOpen cn no_options w of
             Some e \<Rightarrow> (Inl e, w)
           | None \<Rightarrow>
               (let w1 = emit (BeginTransaction (connId cn) uuid level) w
                in case ffi_beginTransaction f (trace w) (connId cn) uuid of
                     Some err \<Rightarrow> (Inl (BeginTransactionFailed err), set_hasError c w1)
                   | None \<Rightarrow>
                       (Inr t,
                        w1\<lparr>txs := (txs w1)(t \<mapsto>
                              \<lparr>txId = uuid, isolation = level, committed = False, rolledBack = False,
                               txConnId = connId cn, txStreams = []\<rparr>),
                           conns := (conns w1)(c \<mapsto> cn\<lparr>transactions := set_add t (transactions cn)\<rparr>)\<rparr>))))"

text \<open>\<^verbatim>\<open>#syncCleanup()\<close>: the loop over the transactions, then the loop over the streams
  the connection still tracks.\<close>

definition force_each :: "RuntimeFFI \<Rightarrow> ref list \<Rightarrow> bool \<times> world \<Rightarrow> bool \<times> world" where
  "force_each f ts start =
     fold (\<lambda>t (hadActiveTx, w').
             case txs w' t of
               None \<Rightarrow> (hadActiveTx, w')
             | Some tx \<Rightarrow> (hadActiveTx \<or> isActive tx, forceInactive f t w'))
          ts start"

definition close_tracked_streams :: "RuntimeFFI \<Rightarrow> ref \<Rightarrow> world \<Rightarrow> world" where
  "close_tracked_streams f c w =
     (case conns w c of
        None \<Rightarrow> w
      | Some cn \<Rightarrow> close_each f (streams cn) (w\<lparr>conns := (conns w)(c \<mapsto> cn\<lparr>streams := []\<rparr>)\<rparr>))"

definition syncCleanup :: "RuntimeFFI \<Rightarrow> ref \<Rightarrow> world \<Rightarrow> bool \<times> world" where
  "syncCleanup f c w =
     (case conns w c of
        None \<Rightarrow> (False, w)
      | Some cn \<Rightarrow>
          (let (hadActiveTx, w1) =
                 force_each f (transactions cn)
                   (False, w\<lparr>conns := (conns w)(c \<mapsto> cn\<lparr>transactions := []\<rparr>)\<rparr>)
           in (hadActiveTx, close_tracked_streams f c w1)))"

text \<open>\<^verbatim>\<open>#cleanup()\<close>.\<close>

definition dispose_each :: "RuntimeFFI \<Rightarrow> ref list \<Rightarrow> world \<Rightarrow> world" where
  "dispose_each f ts w = fold (tx_asyncDispose f) ts w"

definition cleanup :: "RuntimeFFI \<Rightarrow> ref \<Rightarrow> world \<Rightarrow> world" where
  "cleanup f c w =
     (case conns w c of
        None \<Rightarrow> w
      | Some cn \<Rightarrow>
          close_tracked_streams f c
            (dispose_each f (transactions cn)
               (w\<lparr>conns := (conns w)(c \<mapsto> cn\<lparr>transactions := []\<rparr>)\<rparr>)))"

definition set_disposed :: "ref \<Rightarrow> world \<Rightarrow> world" where
  "set_disposed c w =
     (case conns w c of
        None \<Rightarrow> w
      | Some cn \<Rightarrow> w\<lparr>conns := (conns w)(c \<mapsto> cn\<lparr>disposed := True\<rparr>)\<rparr>)"

text \<open>\<^verbatim>\<open>close()\<close> (and its alias \<^verbatim>\<open>disconnect()\<close>) of the connection.\<close>

definition conn_close :: "RuntimeFFI \<Rightarrow> ref \<Rightarrow> world \<Rightarrow> world" where
  "conn_close f c w =
     (case conns w c of
        None \<Rightarrow> w
      | Some cn \<Rightarrow>
          if \<not> disposed cn
          then (let w1 = cleanup f c (set_disposed c w)
                in emit (Disconnect (connId cn)) w1)
          else w)"

text \<open>\<^verbatim>\<open>[Symbol.dispose]()\<close> of the connection.\<close>

definition release_or_disconnect :: "ref \<Rightarrow> bool \<Rightarrow> world \<Rightarrow> world" where
  "release_or_disconnect c evict w =
     (case conns w c of
        None \<Rightarrow> w
      | Some cn \<Rightarrow>
          (case poolId cn of
             Some p \<Rightarrow>
               if \<not> hasError cn \<and> \<not> evict then emit (PoolRelease p (connId cn)) w
               else emit (Disconnect (connId cn)) w
           | None \<Rightarrow> emit (Disconnect (connId cn)) w))"

definition dispose :: "RuntimeFFI \<Rightarrow> ref \<Rightarrow> world \<Rightarrow> world" where
  "dispose f c w =
     (case conns w c of
        None \<Rightarrow> w
      | Some cn \<Rightarrow>
          if \<not> disposed cn
          then (let (hadActiveTx, w1) = syncCleanup f c (set_disposed c w)
                in release_or_disconnect c hadActiveTx w1)
          else w)"

text \<open>\<^verbatim>\<open>[Symbol.asyncDispose]()\<close> of the connection.\<close>

definition asyncDispose :: "RuntimeFFI \<Rightarrow> ref \<Rightarrow> world \<Rightarrow> world" where
  "asyncDispose f c w =
     (case conns w c of
        None \<Rightarrow> w
      | Some cn \<Rightarrow>
          if \<not> disposed cn
          then release_or_disconnect c False (cleanup f c (set_disposed c w))
          else w)"

section \<open>Pools: entry point, handle, and the boundary's registry\<close>

subsection \<open>Configuration (types.ts)\<close>

text \<open>\<^verbatim>\<open>NormalizedConfig\<close>, after the deferred credential provider was resolved.\<close>

datatype Auth =
    AuthSql string string
  | AuthNtlm string string string
  | AuthWindows
  | AuthAzureAd string string
  | AuthAzureAdToken string

record PoolTuning =
  pool_min :: "nat option"
  pool_max :: "nat option"
  idle_timeout_ms :: "nat option"

record NormalizedConfig =
  server :: string
  port :: nat
  database :: string
  auth :: Auth
  encrypt :: bool
  trust_server_certificate :: bool
  connect_timeout_ms :: nat
  request_timeout_ms :: nat
  app_name :: string
  instance_name :: "string option"
  packet_size :: nat
  pool :: "PoolTuning option"

subsection \<open>The boundary's pool registry\<close>

text \<open>
  Modelled from the spec: the dedup key of a configuration. The function that computes it
  (\<^verbatim>\<open>NormalizedConfig::dedup_key\<close> of the native driver) is not among the sources. The
  spec derives the key from every field except pool tuning and timeouts.
\<close>

definition dedup_key :: "NormalizedConfig \<Rightarrow> NormalizedConfig" where
  "dedup_key cfg = cfg\<lparr>connect_timeout_ms := 0, request_timeout_ms := 0, pool := None\<rparr>"

text \<open>
  Modelled from the spec: the registry of open pools behind \<^verbatim>\<open>poolCreate\<close> and
  \<^verbatim>\<open>poolClose\<close> (\<^verbatim>\<open>store_pool\<close> and \<^verbatim>\<open>remove_pool\<close> of the native driver, not
  among the sources). A pool has its key, the configuration of its first registration and
  a reference count. The log records when a boundary pool comes into being and when it is
  destroyed.
\<close>

datatype pool_event = PoolCreated handle | PoolDestroyed handle

record BoundaryPool =
  bp_key :: NormalizedConfig
  bp_config :: NormalizedConfig
  ref_count :: nat

record Boundary =
  registry :: "NormalizedConfig \<rightharpoonup> handle"
  pools :: "handle \<rightharpoonup> BoundaryPool"
  next_handle :: handle
  pool_log :: "pool_event list"

text \<open>
  Modelled from the spec: \<^verbatim>\<open>poolCreate\<close>. If an open pool shares the key, its
  reference count is incremented and its handle returned unchanged; otherwise a new
  boundary pool is created and registered with count 1. \<open>connectable\<close> says whether
  the boundary can create a pool for a configuration; if it cannot, the answer is the
  failure sentinel.
\<close>

definition ffi_poolCreate ::
  "(NormalizedConfig \<Rightarrow> bool) \<Rightarrow> NormalizedConfig \<Rightarrow> Boundary \<Rightarrow> handle \<times> Boundary" where
  "ffi_poolCreate connectable cfg b =
     (case registry b (dedup_key cfg) of
        Some h \<Rightarrow>
          (h, case pools b h of
                None \<Rightarrow> b
              | Some p \<Rightarrow> b\<lparr>pools := (pools b)(h \<mapsto> p\<lparr>ref_count := ref_count p + 1\<rparr>)\<rparr>)
      | None \<Rightarrow>
          if \<not> connectable cfg then (INVALID_HANDLE, b)
          else
            (let h = next_handle b
             in (h, b\<lparr>registry := (registry b)(dedup_key cfg \<mapsto> h),
                       pools := (pools b)(h \<mapsto>
                         \<lparr>bp_key = dedup_key cfg, bp_config = cfg, ref_count = 1\<rparr>),
                       next_handle := h + 1,
                       pool_log := pool_log b @ [PoolCreated h]\<rparr>)))"

text \<open>
  Modelled from the spec: \<^verbatim>\<open>poolClose\<close>. The reference count is decremented; at
  zero the boundary pool is destroyed and its key deregistered.
\<close>

definition ffi_poolClose :: "handle \<Rightarrow> Boundary \<Rightarrow> Boundary" where
  "ffi_poolClose h b =
     (case pools b h of
        None \<Rightarrow> b
      | Some p \<Rightarrow>
          (let n = ref_count p - 1
           in if n = 0
              then b\<lparr>pools := (pools b)(h := None),
                      registry := (registry b)(bp_key p := None),
                      pool_log := pool_log b @ [PoolDestroyed h]\<rparr>
              else b\<lparr>pools := (pools b)(h \<mapsto> p\<lparr>ref_count := n\<rparr>)\<rparr>))"

subsection \<open>createPool (mod.ts) and MssqlPool.close (pool.ts)\<close>

text \<open>
  \<^verbatim>\<open>createPool\<close> takes the configuration already parsed and resolved. Its one error is
  \<^verbatim>\<open>Error("Failed to create pool: ...")\<close>; the text of the message is not modelled.
\<close>

datatype pool_error = FailedToCreatePool

record MssqlPool =
  pool_poolId :: handle
  pool_closed :: bool

definition createPool ::
  "(NormalizedConfig \<Rightarrow> bool) \<Rightarrow> NormalizedConfig \<Rightarrow> Boundary \<Rightarrow> (pool_error + MssqlPool) \<times> Boundary" where
  "createPool connectable config b =
     (let (h, b') = ffi_poolCreate connectable config b
      in if h = INVALID_HANDLE then (Inl FailedToCreatePool, b')
         else (Inr \<lparr>pool_poolId = h, pool_closed = False\<rparr>, b'))"

definition pool_close :: "MssqlPool \<Rightarrow> Boundary \<Rightarrow> MssqlPool \<times> Boundary" where
  "pool_close p b =
     (if \<not> pool_closed p then (p\<lparr>pool_closed := True\<rparr>, ffi_poolClose (pool_poolId p) b)
      else (p, b))"

text \<open>A caller that opens one pool per configuration, in order, and one that closes each
  handle of a list once, in order.\<close>

fun open_pools ::
  "(NormalizedConfig \<Rightarrow> bool) \<Rightarrow> NormalizedConfig list \<Rightarrow> Boundary \<Rightarrow> MssqlPool list option \<times> Boundary" where
  "open_pools connectable [] b = (Some [], b)"
| "open_pools connectable (cfg # cfgs) b =
     (case createPool connectable cfg b of
        (Inl e, b') \<Rightarrow> (None, b')
      | (Inr p, b') \<Rightarrow>
          (case open_pools connectable cfgs b' of
             (None, b'') \<Rightarrow> (None, b'')
           | (Some ps, b'') \<Rightarrow> (Some (p # ps), b'')))"

definition close_pools :: "MssqlPool list \<Rightarrow> Boundary \<Rightarrow> Boundary" where
  "close_pools ps b = fold (\<lambda>p b'. snd (pool_close p b')) ps b"

section \<open>Observations on traces\<close>

definition is_StreamNext :: "event \<Rightarrow> bool" where
  "is_StreamNext e = (case e of StreamNext _ \<Rightarrow> True | _ \<Rightarrow> False)"

text \<open>The events a stream's \<^verbatim>\<open>close()\<close> can cause.\<close>

definition is_close_event :: "event \<Rightarrow> bool" where
  "is_close_event e = (case e of StreamClose _ \<Rightarrow> True | CallbackRun _ \<Rightarrow> True | _ \<Rightarrow> False)"

text \<open>\<open>w'\<close> has the trace of \<open>w\<close> followed by events that all satisfy \<open>P\<close>.\<close>

definition extends_by :: "(event \<Rightarrow> bool) \<Rightarrow> world \<Rightarrow> world \<Rightarrow> bool" where
  "extends_by P w w' \<longleftrightarrow> (\<exists>evs. trace w' = trace w @ evs \<and> list_all P evs)"

text \<open>A stream that is closed or done.\<close>

definition terminal :: "world \<Rightarrow> ref \<Rightarrow> bool" where
  "terminal w r = (case strs w r of None \<Rightarrow> False | Some s \<Rightarrow> isClosed s \<or> isDone s)"

text \<open>The foreign callbacks of a list, in order, one entry per registration.\<close>

fun foreign_ids :: "callback list \<Rightarrow> nat list" where
  "foreign_ids [] = []"
| "foreign_ids (Foreign n b # cbs) = n # foreign_ids cbs"
| "foreign_ids (cb # cbs) = foreign_ids cbs"


text \<open>The boundary calls among the events: all but the observations of callbacks.\<close>

definition is_boundary_call :: "event \<Rightarrow> bool" where
  "is_boundary_call e = (case e of CallbackRun _ \<Rightarrow> False | _ \<Rightarrow> True)"

text \<open>The cursors of the open streams among the streams of a list, in the order of the list.\<close>

fun open_cursors :: "world \<Rightarrow> ref list \<Rightarrow> handle list" where
  "open_cursors w [] = []"
| "open_cursors w (r # rs) =
     (case strs w r of
        None \<Rightarrow> open_cursors w rs
      | Some s \<Rightarrow> if isClosed s then open_cursors w rs else cursorId s # open_cursors w rs)"

section \<open>How a cleanup changes the world\<close>

text \<open>What a cleanup never touches in a connection: everything but the two sets.\<close>

definition conn_core :: "MssqlConnection \<Rightarrow> MssqlConnection" where
  "conn_core cn = cn\<lparr>streams := [], transactions := []\<rparr>"

definition conn_cores :: "world \<Rightarrow> ref \<Rightarrow> MssqlConnection option" where
  "conn_cores w c = map_option conn_core (conns w c)"

text \<open>
  Streams under a cleanup that emitted \<open>evs\<close>: a stream stays in the store with its
  cursor, a closed stream stays closed, and a stream that became closed has its
  \<^verbatim>\<open>streamClose\<close> call among \<open>evs\<close>.
\<close>

definition stream_step :: "world \<Rightarrow> event list \<Rightarrow> world \<Rightarrow> bool" where
  "stream_step w evs w' \<longleftrightarrow>
     (\<forall>r s. strs w r = Some s \<longrightarrow>
        (\<exists>s'. strs w' r = Some s' \<and> cursorId s' = cursorId s \<and>
              (isClosed s \<longrightarrow> isClosed s') \<and>
              (isClosed s' \<longrightarrow> isClosed s \<or> StreamClose (cursorId s) \<in> set evs)))"

text \<open>
  Transactions under a cleanup: a transaction stays in the store with its id and its
  connection handle; outside \<open>T\<close> its flags are unchanged; no transaction becomes active
  again; its set of streams only shrinks, and a stream that left the set is closed.
\<close>

definition tx_step :: "ref set \<Rightarrow> world \<Rightarrow> world \<Rightarrow> bool" where
  "tx_step T w w' \<longleftrightarrow>
     (\<forall>t tx. txs w t = Some tx \<longrightarrow>
        (\<exists>tx'. txs w' t = Some tx' \<and> txId tx' = txId tx \<and> txConnId tx' = txConnId tx \<and>
               (t \<notin> T \<longrightarrow> committed tx' = committed tx \<and> rolledBack tx' = rolledBack tx) \<and>
               (isActive tx' \<longrightarrow> isActive tx) \<and>
               set (txStreams tx') \<subseteq> set (txStreams tx) \<and>
               (\<forall>r\<in>set (txStreams tx).
                  r \<in> set (txStreams tx') \<or> strs w r = None \<or>
                  (\<exists>s'. strs w' r = Some s' \<and> isClosed s'))))"

definition evolves :: "ref set \<Rightarrow> world \<Rightarrow> event list \<Rightarrow> world \<Rightarrow> bool" where
  "evolves T w evs w' \<longleftrightarrow>
     trace w' = trace w @ evs \<and> conn_cores w' = conn_cores w \<and>
     (\<forall>t. txs w t = None \<longrightarrow> txs w' t = None) \<and>
     stream_step w evs w' \<and> tx_step T w w'"

text \<open>The events a cascading cleanup can cause: those of closing streams, and rollbacks.\<close>

definition is_cleanup_event :: "event \<Rightarrow> bool" where
  "is_cleanup_event e =
     (case e of StreamClose _ \<Rightarrow> True | CallbackRun _ \<Rightarrow> True | Rollback _ _ \<Rightarrow> True | _ \<Rightarrow> False)"

section \<open>Base64 without the table\<close>



section \<open>Example worlds\<close>

text \<open>The mock boundary of the unit tests (\<^verbatim>\<open>createMockFFI\<close> in connection\_test.ts): every
  call succeeds, a stream has no rows.\<close>

definition mock_ffi :: RuntimeFFI where
  "mock_ffi =
     \<lparr>ffi_query = (\<lambda>_ _ _. Some ''[]''),
      ffi_executeNonquery = (\<lambda>_ _ _. Some ''{}''),
      ffi_exec = (\<lambda>_ _ _. Some ''{}''),
      ffi_queryStream = (\<lambda>_ _ _. 1),
      ffi_streamNext = (\<lambda>_ _. None),
      ffi_streamCloseThrows = (\<lambda>_ _. False),
      ffi_beginTransaction = (\<lambda>_ _ _. None),
      ffi_commit = (\<lambda>_ _ _. None),
      ffi_rollback = (\<lambda>_ _ _. None),
      ffi_lastError = (\<lambda>_ _. None)\<rparr>"

text \<open>A boundary whose commit and rollback fail.\<close>

definition failing_ffi :: RuntimeFFI where
  "failing_ffi = mock_ffi\<lparr>ffi_commit := (\<lambda>_ _ _. Some ''deadlock''),
                           ffi_rollback := (\<lambda>_ _ _. Some ''connection reset'')\<rparr>"


definition empty_world :: world where
  "empty_world = \<lparr>conns = Map.empty, txs = Map.empty, strs = Map.empty, trace = []\<rparr>"

text \<open>\<^verbatim>\<open>new MssqlConnection(connId, ffi, poolId)\<close>, stored under the reference \<open>c\<close>.\<close>

definition new_connection :: "ref \<Rightarrow> handle \<Rightarrow> handle option \<Rightarrow> world \<Rightarrow> world" where
  "new_connection c h p w =
     w\<lparr>conns := (conns w)(c \<mapsto>
          \<lparr>connId = h, poolId = p, disposed = False, hasError = False, streams = [],
           transactions = []\<rparr>)\<rparr>"

text \<open>A pooled connection (handle 1, pool 10) on which a transaction was begun.\<close>

definition world_with_transaction :: world where
  "world_with_transaction =
     snd (beginTransaction mock_ffi 0 0 ''tx-1'' READ_COMMITTED
            (new_connection 0 1 (Some 10) empty_world))"

text \<open>An engine for the examples: it writes every time value as the epoch, and a call takes
  at most 65536 arguments.\<close>

definition test_engine :: Engine where
  "test_engine = \<lparr>isoText = (\<lambda>t. ''1970-01-01T00:00:00.000Z''), maxArguments = 65536\<rparr>"

text \<open>The transaction committed; and, separately, its connection disposed asynchronously.\<close>

definition world_committed :: world where
  "world_committed = snd (commit mock_ffi 0 world_with_transaction)"

definition world_disposed :: world where
  "world_disposed = asyncDispose mock_ffi 0 world_with_transaction"

text \<open>The connection disposed synchronously while its transaction was active.\<close>

definition world_sync_disposed :: world where
  "world_sync_disposed = dispose mock_ffi 0 world_with_transaction"

definition with_transaction :: "ref \<Rightarrow> CommandOptions" where
  "with_transaction t = no_options\<lparr>opt_transaction := Some t\<rparr>"

text \<open>A standalone connection (handle 1) with one open stream (cursor 1); the same with a
  foreign close callback registered; and that stream closed.\<close>

definition world_with_stream :: world where
  "world_with_stream =
     snd (queryStream test_engine mock_ffi 0 0 ''SELECT 1'' None no_options
            (new_connection 0 1 None empty_world))"

definition world_with_callback :: world where
  "world_with_callback = snd (onClose 0 (Foreign 7 False) world_with_stream)"

definition world_stream_closed :: world where
  "world_stream_closed = snd (close mock_ffi 0 world_with_callback)"

text \<open>The pooled connection with a transaction and a stream opened within it; the same after
  an explicit commit.\<close>

definition world_tx_stream :: world where
  "world_tx_stream =
     snd (queryStream test_engine mock_ffi 0 0 ''SELECT 1'' None (with_transaction 0)
            world_with_transaction)"

definition world_tx_stream_committed :: world where
  "world_tx_stream_committed = snd (commit mock_ffi 0 world_tx_stream)"

text \<open>A boundary whose queries fail, and the pooled connection after a failed query.\<close>

definition query_error_ffi :: RuntimeFFI where
  "query_error_ffi = mock_ffi\<lparr>ffi_query := (\<lambda>_ _ _. None),
                               ffi_lastError := (\<lambda>_ _. Some ''Syntax error near SELECT'')\<rparr>"

definition world_after_error :: world where
  "world_after_error =
     snd (query test_engine query_error_ffi 0 ''BAD SQL'' None no_options
            (new_connection 0 1 (Some 10) empty_world))"


text \<open>A boundary with no pool; two configurations that differ in pool tuning and timeouts
  only; a boundary that can always create a pool.\<close>

definition empty_boundary :: Boundary where
  "empty_boundary = \<lparr>registry = Map.empty, pools = Map.empty, next_handle = 1, pool_log = []\<rparr>"

definition config_a :: NormalizedConfig where
  "config_a =
     \<lparr>server = ''localhost'', port = 1433, database = ''mydb'',
      auth = AuthSql ''sa'' ''pass'', encrypt = True, trust_server_certificate = False,
      connect_timeout_ms = 15000, request_timeout_ms = 30000, app_name = ''mssql-ts'',
      instance_name = None, packet_size = 4096, pool = None\<rparr>"

definition config_a_tuned :: NormalizedConfig where
  "config_a_tuned =
     config_a\<lparr>request_timeout_ms := 5000,
              pool := Some \<lparr>pool_min = Some 2, pool_max = Some 20, idle_timeout_ms = None\<rparr>\<rparr>"

definition always_connectable :: "NormalizedConfig \<Rightarrow> bool" where
  "always_connectable cfg = True"

section \<open>Traces\<close>

lemma extends_by_refl [simp]: "extends_by P w w"
  by (simp add: extends_by_def)

lemma extends_by_trans: "extends_by P w w1 \<Longrightarrow> extends_by P w1 w2 \<Longrightarrow> extends_by P w w2"
  by (auto simp: extends_by_def)

lemma extends_by_mono: "extends_by P w w' \<Longrightarrow> (\<And>e. P e \<Longrightarrow> Q e) \<Longrightarrow> extends_by Q w w'"
  by (auto simp: extends_by_def list_all_iff)

lemma extends_by_emit: "P e \<Longrightarrow> extends_by P w (emit e w)"
  by (simp add: extends_by_def emit_def)

lemma extends_by_same_trace: "trace w' = trace w \<Longrightarrow> extends_by P w w'"
  by (simp add: extends_by_def)

lemma extends_by_filter:
  "extends_by P w w' \<Longrightarrow> (\<And>e. P e \<Longrightarrow> \<not> Q e) \<Longrightarrow> filter Q (trace w') = filter Q (trace w)"
  by (auto simp: extends_by_def list_all_iff filter_empty_conv)

section \<open>QueryStream: close and its callbacks\<close>

lemma run_callback_strs [simp]: "strs (snd (run_callback r cb w)) = strs w"
  by (cases cb) (auto simp: emit_def split: option.splits)

lemma run_callbacks_strs [simp]: "strs (run_callbacks r cbs w) = strs w"
  unfolding run_callbacks_def by (induction cbs arbitrary: w) simp_all

lemma run_callback_trace:
  "trace (snd (run_callback r cb w)) = trace w @ map CallbackRun (foreign_ids [cb])"
  by (cases cb) (auto simp: emit_def split: option.splits)

lemma foreign_ids_append: "foreign_ids (xs @ ys) = foreign_ids xs @ foreign_ids ys"
  by (induction xs rule: foreign_ids.induct) simp_all

lemma foreign_ids_Cons: "foreign_ids (cb # cbs) = foreign_ids [cb] @ foreign_ids cbs"
  using foreign_ids_append [of "[cb]" cbs] by simp

lemma run_callbacks_trace:
  "trace (run_callbacks r cbs w) = trace w @ map CallbackRun (foreign_ids cbs)"
  unfolding run_callbacks_def
proof (induction cbs arbitrary: w)
  case Nil
  show ?case by simp
next
  case (Cons cb cbs)
  show ?case
    using Cons.IH [of "snd (run_callback r cb w)"]
    by (simp add: run_callback_trace foreign_ids_Cons [of cb cbs])
qed

lemma close_closed:
  "strs w r = Some s \<Longrightarrow> isClosed s \<Longrightarrow> close f r w = (None, w)"
  by (simp add: close_def)

lemma close_open_ok:
  "strs w r = Some s \<Longrightarrow> \<not> isClosed s \<Longrightarrow> \<not> ffi_streamCloseThrows f (trace w) (cursorId s) \<Longrightarrow>
   fst (close f r w) = None \<and>
   strs (snd (close f r w)) = (strs w)(r \<mapsto> s\<lparr>isClosed := True, onCloseCallbacks := []\<rparr>) \<and>
   trace (snd (close f r w)) =
     trace w @ StreamClose (cursorId s) # map CallbackRun (foreign_ids (onCloseCallbacks s))"
  by (simp add: close_def Let_def run_callbacks_trace emit_def)

lemma close_open_throws:
  "strs w r = Some s \<Longrightarrow> \<not> isClosed s \<Longrightarrow> ffi_streamCloseThrows f (trace w) (cursorId s) \<Longrightarrow>
   fst (close f r w) = Some BoundaryThrew \<and>
   strs (snd (close f r w)) = (strs w)(r \<mapsto> s\<lparr>isClosed := True\<rparr>) \<and>
   trace (snd (close f r w)) = trace w @ [StreamClose (cursorId s)]"
  by (simp add: close_def Let_def emit_def)

lemma close_strs_other:
  "r' \<noteq> r \<Longrightarrow> strs (snd (close f r w)) r' = strs w r'"
  by (auto simp: close_def Let_def emit_def split: option.splits)

lemma close_strs_self:
  "strs w r = Some s \<Longrightarrow>
   \<exists>s'. strs (snd (close f r w)) r = Some s' \<and> isClosed s' \<and> isDone s' = isDone s \<and>
        cursorId s' = cursorId s"
  by (auto simp: close_def Let_def emit_def)

lemma close_extends: "extends_by is_close_event w (snd (close f r w))"
proof (cases "strs w r")
  case None
  then show ?thesis by (simp add: close_def)
next
  case (Some s)
  show ?thesis
  proof (cases "isClosed s")
    case True
    with Some show ?thesis by (simp add: close_closed)
  next
    case False
    show ?thesis
    proof (cases "ffi_streamCloseThrows f (trace w) (cursorId s)")
      case True
      with close_open_throws [OF Some False True] show ?thesis
        by (simp add: extends_by_def is_close_event_def)
    next
      case nothrow: False
      with close_open_ok [OF Some False nothrow] show ?thesis
        by (simp add: extends_by_def is_close_event_def list_all_iff)
    qed
  qed
qed

lemma close_terminal: "strs w r = Some s \<Longrightarrow> terminal (snd (close f r w)) r"
  using close_strs_self [of w r s f] by (auto simp: terminal_def)


lemma world_with_stream_eq:
  "world_with_stream =
     \<lparr>conns = [0 \<mapsto> \<lparr>connId = 1, poolId = None, disposed = False, hasError = False,
                       streams = [0], transactions = []\<rparr>],
      txs = Map.empty,
      strs = [0 \<mapsto> \<lparr>cursorId = 1, isDone = False, isClosed = False,
                      onCloseCallbacks = [UntrackFromConnection 0]\<rparr>],
      trace = [QueryStreamOpen 1 \<lparr>sql = ''SELECT 1'', params = [], transaction_id = None,
                 command_timeout_ms = None, command_type = CmdText\<rparr>]\<rparr>"
  by (simp add: world_with_stream_def queryStream_def new_connection_def empty_world_def
      mock_ffi_def ensureOpen_def no_options_def emit_def set_add_def transaction_id_of_def
      serializeCommand_def serializeParams_def INVALID_HANDLE_def track_in_connection_def
      onClose_def)

lemma world_with_callback_eq:
  "world_with_callback =
     \<lparr>conns = [0 \<mapsto> \<lparr>connId = 1, poolId = None, disposed = False, hasError = False,
                       streams = [0], transactions = []\<rparr>],
      txs = Map.empty,
      strs = [0 \<mapsto> \<lparr>cursorId = 1, isDone = False, isClosed = False,
                      onCloseCallbacks = [UntrackFromConnection 0, Foreign 7 False]\<rparr>],
      trace = [QueryStreamOpen 1 \<lparr>sql = ''SELECT 1'', params = [], transaction_id = None,
                 command_timeout_ms = None, command_type = CmdText\<rparr>]\<rparr>"
  by (simp add: world_with_callback_def world_with_stream_eq onClose_def)

lemma world_stream_closed_eq:
  "world_stream_closed =
     \<lparr>conns = [0 \<mapsto> \<lparr>connId = 1, poolId = None, disposed = False, hasError = False,
                       streams = [], transactions = []\<rparr>],
      txs = Map.empty,
      strs = [0 \<mapsto> \<lparr>cursorId = 1, isDone = False, isClosed = True, onCloseCallbacks = []\<rparr>],
      trace = [QueryStreamOpen 1 \<lparr>sql = ''SELECT 1'', params = [], transaction_id = None,
                 command_timeout_ms = None, command_type = CmdText\<rparr>,
               StreamClose 1, CallbackRun 7]\<rparr>"
  by (simp add: world_stream_closed_def world_with_callback_eq close_def mock_ffi_def emit_def
      run_callbacks_def set_delete_def)

section \<open>QueryStream: a closed or exhausted stream\<close>

lemma fetchNext_terminal:
  "strs w r = Some s \<Longrightarrow> isClosed s \<or> isDone s \<Longrightarrow> fetchNext f r w = (Inr None, w)"
  by (auto simp: fetchNext_def)

lemma no_next_in_close: "is_close_event e \<Longrightarrow> \<not> is_StreamNext e"
  by (cases e) (simp_all add: is_close_event_def is_StreamNext_def)

lemma close_no_next:
  "filter is_StreamNext (trace (snd (close f r w))) = filter is_StreamNext (trace w)"
  by (rule extends_by_filter [OF close_extends]) (rule no_next_in_close)

lemma finally_close_cases:
  "strs w r = Some s \<Longrightarrow>
   fst (finally_close f r pending w) = pending \<or> fst (finally_close f r pending w) = Inl BoundaryThrew"
  by (auto simp: finally_close_def close_def Let_def split: option.splits prod.splits)

lemma finally_close_snd: "snd (finally_close f r pending w) = snd (close f r w)"
  by (auto simp: finally_close_def split: option.splits prod.splits)

lemma set_done_trace [simp]: "trace (set_done r w) = trace w"
  by (simp add: set_done_def split: option.splits)

lemma set_done_strs:
  "strs w r = Some s \<Longrightarrow> strs (set_done r w) = (strs w)(r \<mapsto> s\<lparr>isDone := True\<rparr>)"
  by (simp add: set_done_def)

lemma iterNext_terminal:
  assumes "strs w r = Some s" and "isClosed s \<or> isDone s"
  shows "(fst (iterNext f r w) = Inr None \<or> fst (iterNext f r w) = Inl BoundaryThrew) \<and>
         filter is_StreamNext (trace (snd (iterNext f r w))) = filter is_StreamNext (trace w) \<and>
         terminal (snd (iterNext f r w)) r"
proof (cases "isDone s")
  case True
  then have eq: "iterNext f r w = finally_close f r (Inr None) w"
    using assms(1) by (simp add: iterNext_def)
  show ?thesis
    unfolding eq using finally_close_cases [OF assms(1), of f "Inr None"] close_terminal [OF assms(1), of f]
    by (simp add: finally_close_snd close_no_next)
next
  case False
  then have eq: "iterNext f r w = finally_close f r (Inr None) (set_done r w)"
    using assms by (simp add: iterNext_def fetchNext_terminal)
  have s': "strs (set_done r w) r = Some (s\<lparr>isDone := True\<rparr>)"
    using assms(1) by (simp add: set_done_strs)
  show ?thesis
    unfolding eq
    using finally_close_cases [OF s', of f "Inr None"] close_terminal [OF s', of f]
    by (simp add: finally_close_snd close_no_next)
qed

lemma terminal_strs: "terminal w r \<Longrightarrow> \<exists>s. strs w r = Some s \<and> (isClosed s \<or> isDone s)"
  by (auto simp: terminal_def split: option.splits)

lemma toArray_terminal:
  assumes "strs w r = Some s" and "isClosed s \<or> isDone s"
  shows "\<exists>res w'. toArray (Suc n) f r w = Some (res, w') \<and>
           (res = Inr [] \<or> res = Inl BoundaryThrew) \<and>
           filter is_StreamNext (trace w') = filter is_StreamNext (trace w) \<and>
           terminal w' r"
proof -
  obtain x w' where it: "iterNext f r w = (x, w')" by (cases "iterNext f r w")
  with iterNext_terminal [OF assms, of f]
  have "x = Inr None \<or> x = Inl BoundaryThrew"
    and "filter is_StreamNext (trace w') = filter is_StreamNext (trace w)" and "terminal w' r"
    by simp_all
  then show ?thesis
    using it by (auto simp: toArray_def)
qed

lemma pull_terminal:
  assumes "strs w r = Some s" and "isClosed s \<or> isDone s"
  shows "(fst (pull f r w) = Inr None \<or> fst (pull f r w) = Inl BoundaryThrew) \<and>
         filter is_StreamNext (trace (snd (pull f r w))) = filter is_StreamNext (trace w) \<and>
         terminal (snd (pull f r w)) r"
proof -
  have eq: "pull f r w = finally_close f r (Inr None) (set_done r w)"
    using assms by (simp add: pull_def fetchNext_terminal)
  have s': "strs (set_done r w) r = Some (s\<lparr>isDone := True\<rparr>)"
    using assms(1) by (simp add: set_done_strs)
  show ?thesis
    unfolding eq
    using finally_close_cases [OF s', of f "Inr None"] close_terminal [OF s', of f]
    by (simp add: finally_close_snd close_no_next)
qed

lemma onClose_terminal:
  "strs w r = Some s \<Longrightarrow> isClosed s \<or> isDone s \<Longrightarrow> terminal (snd (onClose r cb w)) r"
  by (auto simp: onClose_def terminal_def)

lemma close_keeps_terminal:
  "strs w r = Some s \<Longrightarrow> terminal (snd (close f r w)) r"
  by (rule close_terminal)

lemma end_of_data_iter:
  assumes "strs w r = Some s" and "\<not> isClosed s" and "\<not> isDone s"
    and "ffi_streamNext f (trace w) (cursorId s) = None"
  shows "(fst (iterNext f r w) = Inr None \<or> fst (iterNext f r w) = Inl BoundaryThrew) \<and>
         (\<exists>s'. strs (snd (iterNext f r w)) r = Some s' \<and> isDone s' \<and> isClosed s')"
proof -
  let ?w1 = "emit (StreamNext (cursorId s)) w"
  have f: "fetchNext f r w = (Inr None, ?w1)"
    using assms by (simp add: fetchNext_def parsed_row_def)
  have eq: "iterNext f r w = finally_close f r (Inr None) (set_done r ?w1)"
    using assms f by (simp add: iterNext_def)
  have s': "strs (set_done r ?w1) r = Some (s\<lparr>isDone := True\<rparr>)"
    using assms(1) by (simp add: set_done_def emit_def)
  show ?thesis
    unfolding eq
    using finally_close_cases [OF s', of f "Inr None"] close_strs_self [OF s', of f]
    by (auto simp: finally_close_snd)
qed

text \<open>
  C6. Once a stream is closed or done, \<^verbatim>\<open>#fetchNext\<close> returns \<^verbatim>\<open>null\<close> and leaves the
  world as it was; a resumption of a fresh iterator, a \<^verbatim>\<open>pull\<close> of the readable
  stream and \<^verbatim>\<open>toArray()\<close> yield no row and add no \<^verbatim>\<open>streamNext\<close> call to the
  trace (their only possible failure is an exception of the boundary's
  \<^verbatim>\<open>streamClose\<close>, on a stream that is done and not yet closed); and the stream stays
  closed or done under every operation it has, so the sequence cannot restart. A stream
  becomes closed by \<^verbatim>\<open>close()\<close>, and done and closed as soon as an iterator or a
  \<^verbatim>\<open>pull\<close> receives the end of the data from the boundary.
\<close>

theorem closed_or_exhausted_stream_yields_nothing:
  assumes "strs w r = Some s"
  shows "(isClosed s \<or> isDone s \<longrightarrow>
            fetchNext f r w = (Inr None, w) \<and>
            (fst (iterNext f r w) = Inr None \<or> fst (iterNext f r w) = Inl BoundaryThrew) \<and>
            filter is_StreamNext (trace (snd (iterNext f r w))) = filter is_StreamNext (trace w) \<and>
            (fst (pull f r w) = Inr None \<or> fst (pull f r w) = Inl BoundaryThrew) \<and>
            filter is_StreamNext (trace (snd (pull f r w))) = filter is_StreamNext (trace w) \<and>
            (\<exists>res w'. toArray (Suc n) f r w = Some (res, w') \<and>
               (res = Inr [] \<or> res = Inl BoundaryThrew) \<and>
               filter is_StreamNext (trace w') = filter is_StreamNext (trace w) \<and>
               terminal w' r) \<and>
            terminal (snd (iterNext f r w)) r \<and>
            terminal (snd (pull f r w)) r \<and>
            terminal (snd (close f r w)) r \<and>
            terminal (snd (onClose r cb w)) r) \<and>
         terminal (snd (close f r w)) r \<and>
         (\<not> isClosed s \<and> \<not> isDone s \<and> ffi_streamNext f (trace w) (cursorId s) = None \<longrightarrow>
            terminal (snd (iterNext f r w)) r \<and> terminal (snd (pull f r w)) r)"
proof -
  have a: "terminal (snd (close f r w)) r"
    by (rule close_terminal [OF assms])
  have b: "terminal (snd (iterNext f r w)) r"
    if "\<not> isClosed s" "\<not> isDone s" "ffi_streamNext f (trace w) (cursorId s) = None"
    using end_of_data_iter [OF assms that] by (auto simp: terminal_def)
  have c: "terminal (snd (pull f r w)) r"
    if h: "\<not> isClosed s" "\<not> isDone s" "ffi_streamNext f (trace w) (cursorId s) = None"
  proof -
    let ?w1 = "emit (StreamNext (cursorId s)) w"
    have fn: "fetchNext f r w = (Inr None, ?w1)"
      using assms h by (simp add: fetchNext_def parsed_row_def)
    have s': "strs (set_done r ?w1) r = Some (s\<lparr>isDone := True\<rparr>)"
      using assms by (simp add: set_done_def emit_def)
    show ?thesis
      using close_terminal [OF s', of f] by (simp add: pull_def fn finally_close_snd)
  qed
  show ?thesis
    using a b c fetchNext_terminal [OF assms, of f] iterNext_terminal [OF assms, of f]
      pull_terminal [OF assms, of f] toArray_terminal [OF assms, of n f]
      onClose_terminal [OF assms, of cb]
    by blast
qed


theorem closed_or_exhausted_stream_yields_nothing_witness:
  "strs world_stream_closed 0 =
     Some \<lparr>cursorId = 1, isDone = False, isClosed = True, onCloseCallbacks = []\<rparr> \<and>
   fetchNext mock_ffi 0 world_stream_closed = (Inr None, world_stream_closed) \<and>
   fst (iterNext mock_ffi 0 world_stream_closed) = Inr None \<and>
   filter is_StreamNext (trace (snd (iterNext mock_ffi 0 world_stream_closed))) = [] \<and>
   fst (pull mock_ffi 0 world_stream_closed) = Inr None \<and>
   map_option fst (toArray 1 mock_ffi 0 world_stream_closed) = Some (Inr []) \<and>
   terminal (snd (iterNext mock_ffi 0 world_stream_closed)) 0 \<and>
   strs world_with_stream 0 =
     Some \<lparr>cursorId = 1, isDone = False, isClosed = False,
           onCloseCallbacks = [UntrackFromConnection 0]\<rparr> \<and>
   ffi_streamNext mock_ffi (trace world_with_stream) 1 = None \<and>
   terminal (snd (iterNext mock_ffi 0 world_with_stream)) 0 \<and>
   terminal (snd (pull mock_ffi 0 world_with_stream)) 0 \<and>
   terminal (snd (close mock_ffi 0 world_with_stream)) 0"
proof -
  let ?s = "\<lparr>cursorId = 1, isDone = False, isClosed = True, onCloseCallbacks = []\<rparr>"
  let ?o = "\<lparr>cursorId = 1, isDone = False, isClosed = False,
             onCloseCallbacks = [UntrackFromConnection 0]\<rparr>"
  have h1: "strs world_stream_closed 0 = Some ?s" by (simp add: world_stream_closed_eq)
  have h2: "strs world_with_stream 0 = Some ?o" by (simp add: world_with_stream_eq)
  have h3: "ffi_streamNext mock_ffi (trace world_with_stream) 1 = None"
    by (simp add: mock_ffi_def)
  have nothrow: "fst (iterNext mock_ffi 0 world_stream_closed) \<noteq> Inl BoundaryThrew"
    "fst (pull mock_ffi 0 world_stream_closed) \<noteq> Inl BoundaryThrew"
    "map_option fst (toArray 1 mock_ffi 0 world_stream_closed) \<noteq> Some (Inl BoundaryThrew)"
    by (simp_all add: world_stream_closed_eq iterNext_def pull_def fetchNext_def
        finally_close_def close_def set_done_def toArray_def)
  have t0: "filter is_StreamNext (trace world_stream_closed) = []"
    by (simp add: world_stream_closed_eq is_StreamNext_def)
  from closed_or_exhausted_stream_yields_nothing [OF h1, of mock_ffi 0]
       closed_or_exhausted_stream_yields_nothing [OF h2, of mock_ffi]
  show ?thesis using h1 h2 h3 nothrow t0 by auto
qed

section \<open>QueryStream: close callbacks\<close>








section \<open>Cleanup cascades: what they preserve and what they emit\<close>

lemma evolves_refl: "evolves T w [] w"
  by (auto simp: evolves_def stream_step_def tx_step_def)

lemma stream_step_trans:
  assumes "stream_step w e1 w1" and "stream_step w1 e2 w2"
  shows "stream_step w (e1 @ e2) w2"
  unfolding stream_step_def
proof (intro allI impI)
  fix r s assume s: "strs w r = Some s"
  with assms(1) obtain s1 where s1: "strs w1 r = Some s1" "cursorId s1 = cursorId s"
      "isClosed s \<longrightarrow> isClosed s1" "isClosed s1 \<longrightarrow> isClosed s \<or> StreamClose (cursorId s) \<in> set e1"
    unfolding stream_step_def by blast
  with assms(2) obtain s2 where s2: "strs w2 r = Some s2" "cursorId s2 = cursorId s1"
      "isClosed s1 \<longrightarrow> isClosed s2" "isClosed s2 \<longrightarrow> isClosed s1 \<or> StreamClose (cursorId s1) \<in> set e2"
    unfolding stream_step_def by blast
  show "\<exists>s'. strs w2 r = Some s' \<and> cursorId s' = cursorId s \<and> (isClosed s \<longrightarrow> isClosed s') \<and>
             (isClosed s' \<longrightarrow> isClosed s \<or> StreamClose (cursorId s) \<in> set (e1 @ e2))"
    using s1 s2 by auto
qed

lemma tx_step_trans:
  assumes "tx_step T w w1" and "tx_step T' w1 w2" and "stream_step w e1 w1" and "stream_step w1 e2 w2"
  shows "tx_step (T \<union> T') w w2"
  unfolding tx_step_def
proof (intro allI impI)
  fix t tx assume t: "txs w t = Some tx"
  with assms(1) obtain tx1 where t1: "txs w1 t = Some tx1" "txId tx1 = txId tx" "txConnId tx1 = txConnId tx"
      "t \<notin> T \<longrightarrow> committed tx1 = committed tx \<and> rolledBack tx1 = rolledBack tx"
      "set (txStreams tx1) \<subseteq> set (txStreams tx)" "isActive tx1 \<longrightarrow> isActive tx"
      "\<forall>r\<in>set (txStreams tx). r \<in> set (txStreams tx1) \<or> strs w r = None \<or> (\<exists>s'. strs w1 r = Some s' \<and> isClosed s')"
    unfolding tx_step_def by blast
  with assms(2) obtain tx2 where t2: "txs w2 t = Some tx2" "txId tx2 = txId tx1" "txConnId tx2 = txConnId tx1"
      "t \<notin> T' \<longrightarrow> committed tx2 = committed tx1 \<and> rolledBack tx2 = rolledBack tx1"
      "set (txStreams tx2) \<subseteq> set (txStreams tx1)" "isActive tx2 \<longrightarrow> isActive tx1"
      "\<forall>r\<in>set (txStreams tx1). r \<in> set (txStreams tx2) \<or> strs w1 r = None \<or> (\<exists>s'. strs w2 r = Some s' \<and> isClosed s')"
    unfolding tx_step_def by blast
  have streams: "r \<in> set (txStreams tx2) \<or> strs w r = None \<or> (\<exists>s'. strs w2 r = Some s' \<and> isClosed s')"
    if r: "r \<in> set (txStreams tx)" for r
  proof (cases "strs w r")
    case None
    then show ?thesis by simp
  next
    case (Some s)
    with assms(3) obtain s1 where s1: "strs w1 r = Some s1" unfolding stream_step_def by blast
    with assms(4) obtain s2 where s2: "strs w2 r = Some s2" "isClosed s1 \<longrightarrow> isClosed s2"
      unfolding stream_step_def by blast
    from t1(7) r Some s1 have "r \<in> set (txStreams tx1) \<or> isClosed s1" by auto
    then show ?thesis
    proof
      assume "r \<in> set (txStreams tx1)"
      with t2(7) s1 show ?thesis by auto
    next
      assume "isClosed s1"
      with s2 show ?thesis by simp
    qed
  qed
  show "\<exists>tx'. txs w2 t = Some tx' \<and> txId tx' = txId tx \<and> txConnId tx' = txConnId tx \<and>
          (t \<notin> T \<union> T' \<longrightarrow> committed tx' = committed tx \<and> rolledBack tx' = rolledBack tx) \<and>
          (isActive tx' \<longrightarrow> isActive tx) \<and>
          set (txStreams tx') \<subseteq> set (txStreams tx) \<and>
          (\<forall>r\<in>set (txStreams tx). r \<in> set (txStreams tx') \<or> strs w r = None \<or>
              (\<exists>s'. strs w2 r = Some s' \<and> isClosed s'))"
    using t1 t2 streams by auto
qed

lemma evolves_trans:
  "evolves T w e1 w1 \<Longrightarrow> evolves T' w1 e2 w2 \<Longrightarrow> evolves (T \<union> T') w (e1 @ e2) w2"
  unfolding evolves_def
  using stream_step_trans tx_step_trans by auto

lemma tx_step_mono: "tx_step T w w' \<Longrightarrow> T \<subseteq> T' \<Longrightarrow> tx_step T' w w'"
  unfolding tx_step_def by (auto; blast)

lemma evolves_mono: "evolves T w evs w' \<Longrightarrow> T \<subseteq> T' \<Longrightarrow> evolves T' w evs w'"
  unfolding evolves_def using tx_step_mono by blast


lemma evolves_txD:
  assumes "evolves T w evs w'" and "txs w t = Some tx"
  shows "\<exists>tx'. txs w' t = Some tx' \<and> txId tx' = txId tx \<and> txConnId tx' = txConnId tx \<and>
           (t \<notin> T \<longrightarrow> committed tx' = committed tx \<and> rolledBack tx' = rolledBack tx) \<and>
           (isActive tx' \<longrightarrow> isActive tx) \<and>
           set (txStreams tx') \<subseteq> set (txStreams tx) \<and>
           (\<forall>r\<in>set (txStreams tx).
              r \<in> set (txStreams tx') \<or> strs w r = None \<or>
              (\<exists>s'. strs w' r = Some s' \<and> isClosed s'))"
proof -
  from assms(1) have "tx_step T w w'" by (simp add: evolves_def)
  with assms(2) show ?thesis unfolding tx_step_def by blast
qed

lemma evolves_strD:
  assumes "evolves T w evs w'" and "strs w r = Some s"
  shows "\<exists>s'. strs w' r = Some s' \<and> cursorId s' = cursorId s \<and>
           (isClosed s \<longrightarrow> isClosed s') \<and>
           (isClosed s' \<longrightarrow> isClosed s \<or> StreamClose (cursorId s) \<in> set evs)"
proof -
  from assms(1) have "stream_step w evs w'" by (simp add: evolves_def)
  with assms(2) show ?thesis unfolding stream_step_def by blast
qed

lemma run_callback_evolves:
  assumes "strs w r = None \<or> (\<exists>s. strs w r = Some s \<and> isClosed s)"
  shows "evolves {} w (map CallbackRun (foreign_ids [cb])) (snd (run_callback r cb w))"
proof (cases cb)
  case (UntrackFromConnection c)
  then show ?thesis
    by (auto simp: evolves_def stream_step_def tx_step_def conn_cores_def conn_core_def fun_eq_iff
        split: option.splits)
next
  case (UntrackFromTransaction t)
  with assms show ?thesis
    by (auto simp: evolves_def stream_step_def tx_step_def conn_cores_def set_delete_def fun_eq_iff
        isActive_def split: option.splits)
next
  case (Foreign n b)
  then show ?thesis
    by (auto simp: evolves_def stream_step_def tx_step_def conn_cores_def emit_def fun_eq_iff)
qed

lemma run_callbacks_evolves:
  assumes "strs w r = None \<or> (\<exists>s. strs w r = Some s \<and> isClosed s)"
  shows "evolves {} w (map CallbackRun (foreign_ids cbs)) (run_callbacks r cbs w)"
  using assms
proof (induction cbs arbitrary: w)
  case Nil
  show ?case by (simp add: run_callbacks_def evolves_refl)
next
  case (Cons cb cbs)
  let ?w1 = "snd (run_callback r cb w)"
  have pre: "strs ?w1 r = None \<or> (\<exists>s. strs ?w1 r = Some s \<and> isClosed s)"
    using Cons.prems by simp
  have rest: "evolves {} ?w1 (map CallbackRun (foreign_ids cbs)) (run_callbacks r cbs ?w1)"
    by (rule Cons.IH [OF pre])
  have unfold: "run_callbacks r (cb # cbs) w = run_callbacks r cbs ?w1"
    by (simp add: run_callbacks_def)
  show ?case
    using evolves_trans [OF run_callback_evolves [OF Cons.prems, of cb] rest]
    by (simp add: unfold foreign_ids_Cons [of cb cbs])
qed

lemma close_evolves:
  "\<exists>evs. evolves {} w evs (snd (close f r w)) \<and> list_all is_close_event evs"
proof (cases "strs w r")
  case None
  then show ?thesis by (auto simp: close_def intro: exI [of _ "[]"] evolves_refl)
next
  case (Some s)
  show ?thesis
  proof (cases "isClosed s")
    case True
    with Some show ?thesis by (auto simp: close_closed intro: exI [of _ "[]"] evolves_refl)
  next
    case False
    let ?w1 = "w\<lparr>strs := (strs w)(r \<mapsto> s\<lparr>isClosed := True\<rparr>)\<rparr>"
    let ?w2 = "emit (StreamClose (cursorId s)) ?w1"
    have first: "evolves {} w [StreamClose (cursorId s)] ?w2"
      using Some
      by (auto simp: evolves_def stream_step_def tx_step_def conn_cores_def emit_def fun_eq_iff)
    show ?thesis
    proof (cases "ffi_streamCloseThrows f (trace w) (cursorId s)")
      case True
      then have "snd (close f r w) = ?w2"
        using Some False by (simp add: close_def)
      with first show ?thesis
        by (auto simp: is_close_event_def intro!: exI [of _ "[StreamClose (cursorId s)]"])
    next
      case nothrow: False
      let ?w3 = "?w2\<lparr>strs := (strs ?w2)(r \<mapsto> s\<lparr>isClosed := True, onCloseCallbacks := []\<rparr>)\<rparr>"
      have second: "evolves {} ?w2 [] ?w3"
        by (auto simp: evolves_def stream_step_def tx_step_def conn_cores_def emit_def fun_eq_iff)
      have pre: "strs ?w3 r = None \<or> (\<exists>s'. strs ?w3 r = Some s' \<and> isClosed s')"
        by simp
      have eq: "snd (close f r w) = run_callbacks r (onCloseCallbacks s) ?w3"
        using Some False nothrow by (simp add: close_def Let_def)
      have "evolves {} w ([StreamClose (cursorId s)] @ [] @
              map CallbackRun (foreign_ids (onCloseCallbacks s))) (snd (close f r w))"
        unfolding eq
        using evolves_trans [OF first evolves_trans [OF second run_callbacks_evolves [OF pre]]]
        by simp
      then show ?thesis
        by (auto simp: is_close_event_def list_all_iff
            intro!: exI [of _ "StreamClose (cursorId s) # map CallbackRun (foreign_ids (onCloseCallbacks s))"])
    qed
  qed
qed

lemma close_each_evolves:
  "\<exists>evs. evolves {} w evs (close_each f rs w) \<and> list_all is_close_event evs"
proof (induction rs arbitrary: w)
  case Nil
  show ?case by (auto simp: close_each_def intro: exI [of _ "[]"] evolves_refl)
next
  case (Cons r rs)
  let ?w1 = "snd (close f r w)"
  obtain e1 where e1: "evolves {} w e1 ?w1" "list_all is_close_event e1"
    using close_evolves by blast
  obtain e2 where e2: "evolves {} ?w1 e2 (close_each f rs ?w1)" "list_all is_close_event e2"
    using Cons.IH by blast
  have "close_each f (r # rs) w = close_each f rs ?w1" by (simp add: close_each_def)
  with evolves_trans [OF e1(1) e2(1)] e1(2) e2(2) show ?case
    by (auto intro!: exI [of _ "e1 @ e2"])
qed


lemma evolves_closed_stays:
  "evolves T w evs w' \<Longrightarrow> strs w r = Some s \<Longrightarrow> isClosed s \<Longrightarrow>
   \<exists>s'. strs w' r = Some s' \<and> isClosed s'"
  using evolves_strD by blast

lemma close_each_closes:
  "r \<in> set rs \<Longrightarrow> strs w r = Some s \<Longrightarrow>
   \<exists>s'. strs (close_each f rs w) r = Some s' \<and> isClosed s'"
proof (induction rs arbitrary: w s)
  case Nil
  then show ?case by simp
next
  case (Cons r0 rs)
  let ?w1 = "snd (close f r0 w)"
  have unfold: "close_each f (r0 # rs) w = close_each f rs ?w1" by (simp add: close_each_def)
  obtain e1 where e1: "evolves {} w e1 ?w1" using close_evolves by blast
  obtain e2 where e2: "evolves {} ?w1 e2 (close_each f rs ?w1)" using close_each_evolves by blast
  show ?case
  proof (cases "r = r0")
    case True
    with close_strs_self [OF Cons.prems(2), of f]
    obtain s1 where "strs ?w1 r = Some s1" "isClosed s1" by auto
    from evolves_closed_stays [OF e2 this] show ?thesis by (simp add: unfold)
  next
    case False
    with Cons.prems have "r \<in> set rs" by simp
    moreover obtain s1 where "strs ?w1 r = Some s1"
      using evolves_strD [OF e1 Cons.prems(2)] by blast
    ultimately show ?thesis using Cons.IH by (simp add: unfold)
  qed
qed

lemma closeAllStreams_evolves:
  "\<exists>evs. evolves {} w evs (closeAllStreams f t w) \<and> list_all is_close_event evs"
proof (cases "txs w t")
  case None
  then show ?thesis by (auto simp: closeAllStreams_def intro: exI [of _ "[]"] evolves_refl)
next
  case (Some tx)
  let ?w0 = "w\<lparr>txs := (txs w)(t \<mapsto> tx\<lparr>txStreams := []\<rparr>)\<rparr>"
  let ?w' = "close_each f (txStreams tx) ?w0"
  have eq: "closeAllStreams f t w = ?w'" using Some by (simp add: closeAllStreams_def)
  obtain evs where ev: "evolves {} ?w0 evs ?w'" "list_all is_close_event evs"
    using close_each_evolves by blast
  have closed: "strs w r = None \<or> (\<exists>s'. strs ?w' r = Some s' \<and> isClosed s')"
    if "r \<in> set (txStreams tx)" for r
  proof (cases "strs w r")
    case None
    then show ?thesis by simp
  next
    case (Some s)
    then have "strs ?w0 r = Some s" by simp
    from close_each_closes [OF that this] show ?thesis by blast
  qed
  have "tx_step {} w ?w'"
    unfolding tx_step_def
  proof (intro allI impI)
    fix t' tx' assume a: "txs w t' = Some tx'"
    show "\<exists>tx''. txs ?w' t' = Some tx'' \<and> txId tx'' = txId tx' \<and> txConnId tx'' = txConnId tx' \<and>
            (t' \<notin> {} \<longrightarrow> committed tx'' = committed tx' \<and> rolledBack tx'' = rolledBack tx') \<and>
            (isActive tx'' \<longrightarrow> isActive tx') \<and>
            set (txStreams tx'') \<subseteq> set (txStreams tx') \<and>
            (\<forall>r\<in>set (txStreams tx'). r \<in> set (txStreams tx'') \<or> strs w r = None \<or>
               (\<exists>s'. strs ?w' r = Some s' \<and> isClosed s'))"
    proof (cases "t' = t")
      case True
      with a Some have same: "tx' = tx" by simp
      have "txs ?w0 t = Some (tx\<lparr>txStreams := []\<rparr>)" by simp
      from evolves_txD [OF ev(1) this]
      obtain tx'' where "txs ?w' t = Some tx''" "txId tx'' = txId tx"
          "txConnId tx'' = txConnId tx" "committed tx'' = committed tx" "rolledBack tx'' = rolledBack tx"
          "set (txStreams tx'') \<subseteq> {}"
        by auto
      with closed True same show ?thesis by (auto simp: isActive_def)
    next
      case False
      with a have "txs ?w0 t' = Some tx'" by simp
      from evolves_txD [OF ev(1) this] show ?thesis by simp
    qed
  qed
  moreover have "trace ?w' = trace w @ evs" "conn_cores ?w' = conn_cores w"
    using ev(1) by (simp_all add: evolves_def conn_cores_def fun_eq_iff)
  moreover have "stream_step w evs ?w'"
    using ev(1) by (simp add: evolves_def stream_step_def)
  moreover have "\<forall>t'. txs w t' = None \<longrightarrow> txs ?w' t' = None"
  proof (intro allI impI)
    fix t' assume "txs w t' = None"
    with Some have "txs ?w0 t' = None" by auto
    with ev(1) show "txs ?w' t' = None" by (simp add: evolves_def)
  qed
  ultimately have "evolves {} w evs ?w'" unfolding evolves_def by simp
  with ev(2) eq show ?thesis by auto
qed


lemma closeAllStreams_clears:
  assumes "txs w t = Some tx"
  shows "\<exists>tx'. txs (closeAllStreams f t w) t = Some tx' \<and> txStreams tx' = [] \<and>
           committed tx' = committed tx \<and> rolledBack tx' = rolledBack tx \<and>
           txId tx' = txId tx \<and> txConnId tx' = txConnId tx"
proof -
  let ?w0 = "w\<lparr>txs := (txs w)(t \<mapsto> tx\<lparr>txStreams := []\<rparr>)\<rparr>"
  have eq: "closeAllStreams f t w = close_each f (txStreams tx) ?w0"
    using assms by (simp add: closeAllStreams_def)
  obtain evs where ev: "evolves {} ?w0 evs (close_each f (txStreams tx) ?w0)"
    using close_each_evolves by blast
  have "txs ?w0 t = Some (tx\<lparr>txStreams := []\<rparr>)" by simp
  from evolves_txD [OF ev this] show ?thesis
    unfolding eq by auto
qed

lemma closeAllStreams_open_streams_closed:
  assumes "evolves T w evs (closeAllStreams f t w)" and "txs w t = Some tx"
    and "r \<in> set (txStreams tx)" and "strs w r = Some s" and "\<not> isClosed s"
  shows "StreamClose (cursorId s) \<in> set evs"
proof -
  let ?w0 = "w\<lparr>txs := (txs w)(t \<mapsto> tx\<lparr>txStreams := []\<rparr>)\<rparr>"
  have eq: "closeAllStreams f t w = close_each f (txStreams tx) ?w0"
    using assms(2) by (simp add: closeAllStreams_def)
  have "strs ?w0 r = Some s" using assms(4) by simp
  from close_each_closes [OF assms(3) this, of f]
  obtain s' where "strs (closeAllStreams f t w) r = Some s'" "isClosed s'"
    unfolding eq by blast
  with evolves_strD [OF assms(1,4)] assms(5) show ?thesis
    by auto
qed

lemma close_is_cleanup: "is_close_event e \<Longrightarrow> is_cleanup_event e"
  by (cases e) (simp_all add: is_close_event_def is_cleanup_event_def)

lemma rollbackFn_snd: "snd (rollbackFn f c i w) = emit (Rollback c i) w"
  by (simp add: rollbackFn_def split: option.splits)

lemma tx_asyncDispose_inactive:
  assumes "txs w t = Some tx" and "\<not> isActive tx"
  shows "tx_asyncDispose f t w = closeAllStreams f t w"
  using closeAllStreams_clears [OF assms(1), of f] assms(2)
  by (auto simp: tx_asyncDispose_def isActive_def Let_def)

lemma tx_asyncDispose_active:
  assumes "txs w t = Some tx" and "isActive tx"
  shows "\<exists>closes. evolves {t} w (closes @ [Rollback (txConnId tx) (txId tx)]) (tx_asyncDispose f t w) \<and>
           list_all is_close_event closes \<and>
           (\<forall>r s. r \<in> set (txStreams tx) \<and> strs w r = Some s \<and> \<not> isClosed s \<longrightarrow>
                  StreamClose (cursorId s) \<in> set closes)"
proof -
  let ?w1 = "closeAllStreams f t w"
  obtain closes where c: "evolves {} w closes ?w1" "list_all is_close_event closes"
    using closeAllStreams_evolves by blast
  obtain tx1 where tx1: "txs ?w1 t = Some tx1" "txStreams tx1 = []" "committed tx1 = committed tx"
      "rolledBack tx1 = rolledBack tx" "txId tx1 = txId tx" "txConnId tx1 = txConnId tx"
    using closeAllStreams_clears [OF assms(1), of f] by blast
  let ?w2 = "set_rolledBack t (emit (Rollback (txConnId tx) (txId tx)) ?w1)"
  have eq: "tx_asyncDispose f t w = ?w2"
    using tx1 assms(2) by (simp add: tx_asyncDispose_def Let_def isActive_def rollbackFn_snd)
  have step: "evolves {t} ?w1 [Rollback (txConnId tx) (txId tx)] ?w2"
    using tx1(1)
    by (auto simp: evolves_def stream_step_def tx_step_def conn_cores_def emit_def
        set_rolledBack_def isActive_def fun_eq_iff)
  have "evolves {t} w (closes @ [Rollback (txConnId tx) (txId tx)]) ?w2"
    using evolves_trans [OF c(1) step] by simp
  moreover have "StreamClose (cursorId s) \<in> set closes"
    if "r \<in> set (txStreams tx)" "strs w r = Some s" "\<not> isClosed s" for r s
    using closeAllStreams_open_streams_closed [OF c(1) assms(1) that] .
  ultimately show ?thesis using c(2) eq by auto
qed

lemma open_cursors_cong:
  "(\<And>r. r \<in> set rs \<Longrightarrow> strs w' r = strs w r) \<Longrightarrow> open_cursors w' rs = open_cursors w rs"
  by (induction rs) (simp_all split: option.splits)

lemma close_calls:
  "filter is_boundary_call (trace (snd (close f r w))) =
     filter is_boundary_call (trace w) @ map StreamClose (open_cursors w [r])"
proof (cases "strs w r")
  case None
  then show ?thesis by (simp add: close_def)
next
  case (Some s)
  show ?thesis
  proof (cases "isClosed s")
    case True
    with Some show ?thesis by (simp add: close_closed)
  next
    case False
    show ?thesis
    proof (cases "ffi_streamCloseThrows f (trace w) (cursorId s)")
      case True
      with close_open_throws [OF Some False True] Some False show ?thesis
        by (simp add: is_boundary_call_def)
    next
      case nothrow: False
      with close_open_ok [OF Some False nothrow] Some False show ?thesis
        by (simp add: is_boundary_call_def filter_empty_conv)
    qed
  qed
qed

lemma close_each_calls:
  "distinct rs \<Longrightarrow>
   filter is_boundary_call (trace (close_each f rs w)) =
     filter is_boundary_call (trace w) @ map StreamClose (open_cursors w rs)"
proof (induction rs arbitrary: w)
  case Nil
  show ?case by (simp add: close_each_def)
next
  case (Cons r rs)
  let ?w1 = "snd (close f r w)"
  have unfold: "close_each f (r # rs) w = close_each f rs ?w1" by (simp add: close_each_def)
  have same: "open_cursors ?w1 rs = open_cursors w rs"
  proof (rule open_cursors_cong)
    fix r' assume "r' \<in> set rs"
    with Cons.prems have "r' \<noteq> r" by auto
    then show "strs ?w1 r' = strs w r'" by (rule close_strs_other)
  qed
  have split: "open_cursors w (r # rs) = open_cursors w [r] @ open_cursors w rs"
    by (simp split: option.splits)
  from Cons.prems have "distinct rs" by simp
  from Cons.IH [OF this, of ?w1] show ?case
    unfolding unfold split by (simp add: close_calls same del: open_cursors.simps)
qed

lemma closeAllStreams_calls:
  assumes "txs w t = Some tx" and "distinct (txStreams tx)"
  shows "filter is_boundary_call (trace (closeAllStreams f t w)) =
           filter is_boundary_call (trace w) @ map StreamClose (open_cursors w (txStreams tx))"
proof -
  let ?w0 = "w\<lparr>txs := (txs w)(t \<mapsto> tx\<lparr>txStreams := []\<rparr>)\<rparr>"
  have eq: "closeAllStreams f t w = close_each f (txStreams tx) ?w0"
    using assms(1) by (simp add: closeAllStreams_def)
  have "open_cursors ?w0 (txStreams tx) = open_cursors w (txStreams tx)"
    by (rule open_cursors_cong) simp
  with close_each_calls [OF assms(2), of f ?w0] show ?thesis
    unfolding eq by simp
qed

lemma closeAllStreams_closes:
  assumes "txs w t = Some tx" and "r \<in> set (txStreams tx)" and "strs w r = Some s"
  shows "\<exists>s'. strs (closeAllStreams f t w) r = Some s' \<and> isClosed s'"
proof -
  let ?w0 = "w\<lparr>txs := (txs w)(t \<mapsto> tx\<lparr>txStreams := []\<rparr>)\<rparr>"
  have eq: "closeAllStreams f t w = close_each f (txStreams tx) ?w0"
    using assms(1) by (simp add: closeAllStreams_def)
  have "strs ?w0 r = Some s" using assms(3) by simp
  from close_each_closes [OF assms(2) this, of f] show ?thesis
    unfolding eq .
qed

lemma tx_asyncDispose_strs:
  assumes "txs w t = Some tx"
  shows "strs (tx_asyncDispose f t w) = strs (closeAllStreams f t w)"
proof -
  obtain tx1 where "txs (closeAllStreams f t w) t = Some tx1"
    using closeAllStreams_clears [OF assms, of f] by blast
  then show ?thesis
    by (simp add: tx_asyncDispose_def Let_def rollbackFn_snd set_rolledBack_def emit_def)
qed

lemma tx_asyncDispose_evolves:
  "\<exists>evs. evolves {t} w evs (tx_asyncDispose f t w) \<and> list_all is_cleanup_event evs"
proof (cases "txs w t")
  case None
  then have "tx_asyncDispose f t w = w"
    by (simp add: tx_asyncDispose_def closeAllStreams_def)
  then show ?thesis by (auto intro: exI [of _ "[]"] evolves_refl)
next
  case (Some tx)
  show ?thesis
  proof (cases "isActive tx")
    case True
    from tx_asyncDispose_active [OF Some True, of f]
    obtain closes where "evolves {t} w (closes @ [Rollback (txConnId tx) (txId tx)]) (tx_asyncDispose f t w)"
      "list_all is_close_event closes" by blast
    moreover have "is_cleanup_event (Rollback (txConnId tx) (txId tx))"
      by (simp add: is_cleanup_event_def)
    ultimately show ?thesis
      by (auto simp: list_all_iff close_is_cleanup
          intro!: exI [of _ "closes @ [Rollback (txConnId tx) (txId tx)]"])
  next
    case False
    obtain evs where "evolves {} w evs (closeAllStreams f t w)" "list_all is_close_event evs"
      using closeAllStreams_evolves by blast
    then show ?thesis
      using tx_asyncDispose_inactive [OF Some False, of f] evolves_mono [of "{}" w evs _ "{t}"]
      by (auto simp: list_all_iff close_is_cleanup intro!: exI [of _ evs])
  qed
qed

lemma tx_asyncDispose_result:
  assumes "txs w t = Some tx"
  shows "\<exists>tx'. txs (tx_asyncDispose f t w) t = Some tx' \<and> txStreams tx' = [] \<and> \<not> isActive tx'"
proof -
  obtain tx1 where tx1: "txs (closeAllStreams f t w) t = Some tx1" "txStreams tx1 = []"
      "committed tx1 = committed tx" "rolledBack tx1 = rolledBack tx"
    using closeAllStreams_clears [OF assms, of f] by blast
  then show ?thesis
    by (auto simp: tx_asyncDispose_def Let_def isActive_def rollbackFn_snd set_rolledBack_def
        emit_def)
qed

lemma tx_asyncDispose_idem:
  "tx_asyncDispose f t (tx_asyncDispose f t w) = tx_asyncDispose f t w"
proof (cases "txs w t")
  case None
  then show ?thesis by (simp add: tx_asyncDispose_def closeAllStreams_def)
next
  case (Some tx)
  let ?w' = "tx_asyncDispose f t w"
  obtain tx' where tx': "txs ?w' t = Some tx'" "txStreams tx' = []" "\<not> isActive tx'"
    using tx_asyncDispose_result [OF Some, of f] by blast
  have "tx'\<lparr>txStreams := []\<rparr> = tx'" using tx'(2) by (cases tx') simp
  then have "closeAllStreams f t ?w' = ?w'"
    using tx'(1,2) by (simp add: closeAllStreams_def close_each_def map_upd_triv)
  then show ?thesis
    using tx_asyncDispose_inactive [OF tx'(1,3), of f] by simp
qed


lemma evolves_tx_unchanged:
  "evolves T w evs w' \<Longrightarrow> txs w t = Some tx \<Longrightarrow> t \<notin> T \<Longrightarrow>
   \<exists>tx'. txs w' t = Some tx' \<and> txId tx' = txId tx \<and> txConnId tx' = txConnId tx \<and>
         isActive tx' = isActive tx"
  using evolves_txD [of T w evs w' t tx] by (auto simp: isActive_def)

lemma evolves_conn:
  "evolves T w evs w' \<Longrightarrow> conns w c = Some cn \<Longrightarrow>
   \<exists>cn'. conns w' c = Some cn' \<and> connId cn' = connId cn \<and> poolId cn' = poolId cn \<and>
         hasError cn' = hasError cn \<and> disposed cn' = disposed cn"
proof -
  assume ev: "evolves T w evs w'" and c: "conns w c = Some cn"
  then have "conn_cores w' c = conn_cores w c" by (simp add: evolves_def)
  with c obtain cn' where cn': "conns w' c = Some cn'" "conn_core cn' = conn_core cn"
    by (auto simp: conn_cores_def)
  from cn'(2) have "connId cn' = connId cn \<and> poolId cn' = poolId cn \<and>
      hasError cn' = hasError cn \<and> disposed cn' = disposed cn"
    by (cases cn, cases cn') (simp add: conn_core_def)
  with cn'(1) show ?thesis by blast
qed

lemma dispose_each_evolves:
  "\<exists>evs. evolves (set ts) w evs (dispose_each f ts w) \<and> list_all is_cleanup_event evs"
proof (induction ts arbitrary: w)
  case Nil
  show ?case by (auto simp: dispose_each_def intro: exI [of _ "[]"] evolves_refl)
next
  case (Cons t ts)
  let ?w1 = "tx_asyncDispose f t w"
  obtain e1 where e1: "evolves {t} w e1 ?w1" "list_all is_cleanup_event e1"
    using tx_asyncDispose_evolves by blast
  obtain e2 where e2: "evolves (set ts) ?w1 e2 (dispose_each f ts ?w1)" "list_all is_cleanup_event e2"
    using Cons.IH by blast
  have "dispose_each f (t # ts) w = dispose_each f ts ?w1" by (simp add: dispose_each_def)
  with evolves_trans [OF e1(1) e2(1)] e1(2) e2(2) show ?case
    by (auto intro!: exI [of _ "e1 @ e2"])
qed

lemma tx_asyncDispose_events:
  "\<exists>evs. evolves {t} w evs (tx_asyncDispose f t w) \<and>
     (\<forall>e\<in>set evs. is_close_event e \<or>
        (\<exists>tx. txs w t = Some tx \<and> e = Rollback (txConnId tx) (txId tx)))"
proof (cases "txs w t")
  case None
  then have "tx_asyncDispose f t w = w"
    by (simp add: tx_asyncDispose_def closeAllStreams_def)
  then show ?thesis by (auto intro: exI [of _ "[]"] evolves_refl)
next
  case (Some tx)
  show ?thesis
  proof (cases "isActive tx")
    case True
    from tx_asyncDispose_active [OF Some True, of f]
    obtain closes where "evolves {t} w (closes @ [Rollback (txConnId tx) (txId tx)]) (tx_asyncDispose f t w)"
      "list_all is_close_event closes" by blast
    with Some show ?thesis
      by (auto simp: list_all_iff intro!: exI [of _ "closes @ [Rollback (txConnId tx) (txId tx)]"])
  next
    case False
    obtain evs where "evolves {} w evs (closeAllStreams f t w)" "list_all is_close_event evs"
      using closeAllStreams_evolves by blast
    then show ?thesis
      using tx_asyncDispose_inactive [OF Some False, of f] evolves_mono [of "{}" w evs _ "{t}"]
      by (auto simp: list_all_iff intro!: exI [of _ evs])
  qed
qed

lemma dispose_each_order:
  assumes "t \<in> set ts" and "txs w t = Some tx" and "isActive tx"
  shows "\<exists>pre post. trace (dispose_each f ts w) =
            trace w @ pre @ Rollback (txConnId tx) (txId tx) # post \<and>
          (\<forall>r s. r \<in> set (txStreams tx) \<and> strs w r = Some s \<and> \<not> isClosed s \<longrightarrow>
                 StreamClose (cursorId s) \<in> set pre) \<and>
          (\<forall>e\<in>set pre. is_close_event e \<or>
             (\<exists>t' tx'. t' \<in> set ts \<and> t' \<noteq> t \<and> txs w t' = Some tx' \<and>
                       e = Rollback (txConnId tx') (txId tx')))"
  using assms
proof (induction ts arbitrary: w tx)
  case Nil
  then show ?case by simp
next
  case (Cons t0 ts)
  let ?w1 = "tx_asyncDispose f t0 w"
  have unfold: "dispose_each f (t0 # ts) w = dispose_each f ts ?w1"
    by (simp add: dispose_each_def)
  show ?case
  proof (cases "t0 = t")
    case True
    from tx_asyncDispose_active [OF Cons.prems(2,3), of f]
    obtain closes where c: "evolves {t} w (closes @ [Rollback (txConnId tx) (txId tx)]) (tx_asyncDispose f t w)"
      "list_all is_close_event closes"
      "\<forall>r s. r \<in> set (txStreams tx) \<and> strs w r = Some s \<and> \<not> isClosed s \<longrightarrow>
             StreamClose (cursorId s) \<in> set closes"
      by blast
    obtain post where "evolves (set ts) ?w1 post (dispose_each f ts ?w1)"
      using dispose_each_evolves by blast
    with c(1) True have "trace (dispose_each f (t0 # ts) w) =
        trace w @ closes @ Rollback (txConnId tx) (txId tx) # post"
      by (simp add: dispose_each_def evolves_def)
    moreover have "\<forall>e\<in>set closes. is_close_event e"
      using c(2) by (simp add: list_all_iff)
    ultimately show ?thesis using c(3) by blast
  next
    case False
    obtain e0 where e0: "evolves {t0} w e0 ?w1"
        "\<forall>e\<in>set e0. is_close_event e \<or>
           (\<exists>tx0. txs w t0 = Some tx0 \<and> e = Rollback (txConnId tx0) (txId tx0))"
      using tx_asyncDispose_events by blast
    from evolves_tx_unchanged [OF e0(1) Cons.prems(2)] False
    obtain tx1 where tx1: "txs ?w1 t = Some tx1" "txId tx1 = txId tx" "txConnId tx1 = txConnId tx"
        "isActive tx1"
      using Cons.prems(3) by auto
    from Cons.prems(1) False have "t \<in> set ts" by simp
    from Cons.IH [OF this tx1(1,4)]
    obtain pre1 post where ih: "trace (dispose_each f ts ?w1) =
          trace ?w1 @ pre1 @ Rollback (txConnId tx1) (txId tx1) # post"
        "\<forall>r s. r \<in> set (txStreams tx1) \<and> strs ?w1 r = Some s \<and> \<not> isClosed s \<longrightarrow>
               StreamClose (cursorId s) \<in> set pre1"
        "\<forall>e\<in>set pre1. is_close_event e \<or>
           (\<exists>t' tx'. t' \<in> set ts \<and> t' \<noteq> t \<and> txs ?w1 t' = Some tx' \<and>
                     e = Rollback (txConnId tx') (txId tx'))"
      by blast
    have tr: "trace (dispose_each f (t0 # ts) w) =
        trace w @ (e0 @ pre1) @ Rollback (txConnId tx) (txId tx) # post"
      using ih(1) e0(1) tx1 by (simp add: unfold evolves_def)
    have closes: "StreamClose (cursorId s) \<in> set (e0 @ pre1)"
      if h: "r \<in> set (txStreams tx)" "strs w r = Some s" "\<not> isClosed s" for r s
    proof -
      from evolves_strD [OF e0(1) h(2)]
      obtain s1 where s1: "strs ?w1 r = Some s1" "cursorId s1 = cursorId s"
          "isClosed s1 \<longrightarrow> isClosed s \<or> StreamClose (cursorId s) \<in> set e0"
        by blast
      show ?thesis
      proof (cases "isClosed s1")
        case True
        with s1(3) h(3) show ?thesis by simp
      next
        case open1: False
        from evolves_txD [OF e0(1) Cons.prems(2)] tx1(1) h(1,2) s1(1) open1
        have "r \<in> set (txStreams tx1)"
          by auto
        with ih(2) s1(1) open1 have "StreamClose (cursorId s1) \<in> set pre1" by blast
        with s1(2) show ?thesis by simp
      qed
    qed
    have others: "is_close_event e \<or>
        (\<exists>t' tx'. t' \<in> set (t0 # ts) \<and> t' \<noteq> t \<and> txs w t' = Some tx' \<and>
                  e = Rollback (txConnId tx') (txId tx'))"
      if e: "e \<in> set (e0 @ pre1)" for e
    proof (cases "e \<in> set e0")
      case True
      with e0(2) False show ?thesis by auto
    next
      case False
      with e have "e \<in> set pre1" by simp
      with ih(3) consider "is_close_event e"
        | t' tx1' where "t' \<in> set ts" "t' \<noteq> t" "txs ?w1 t' = Some tx1'"
            "e = Rollback (txConnId tx1') (txId tx1')"
        by blast
      then show ?thesis
      proof cases
        case 1
        then show ?thesis by simp
      next
        case 2
        have "txs w t' \<noteq> None"
          using e0(1) 2(3) by (auto simp: evolves_def)
        then obtain tx' where tx': "txs w t' = Some tx'" by auto
        from evolves_txD [OF e0(1) this] 2(3)
        have "txId tx1' = txId tx'" "txConnId tx1' = txConnId tx'" by auto
        with 2 tx' show ?thesis by auto
      qed
    qed
    from tr closes others show ?thesis by blast
  qed
qed

lemma close_tracked_streams_evolves:
  "\<exists>evs. evolves {} w evs (close_tracked_streams f c w) \<and> list_all is_close_event evs"
proof (cases "conns w c")
  case None
  then show ?thesis by (auto simp: close_tracked_streams_def intro: exI [of _ "[]"] evolves_refl)
next
  case (Some cn)
  let ?w0 = "w\<lparr>conns := (conns w)(c \<mapsto> cn\<lparr>streams := []\<rparr>)\<rparr>"
  have first: "evolves {} w [] ?w0"
    using Some
    by (auto simp: evolves_def stream_step_def tx_step_def conn_cores_def conn_core_def fun_eq_iff)
  obtain evs where "evolves {} ?w0 evs (close_each f (streams cn) ?w0)" "list_all is_close_event evs"
    using close_each_evolves by blast
  with evolves_trans [OF first this(1)] Some show ?thesis
    by (auto simp: close_tracked_streams_def)
qed

lemma clear_transactions_evolves:
  "conns w c = Some cn \<Longrightarrow>
   evolves {} w [] (w\<lparr>conns := (conns w)(c \<mapsto> cn\<lparr>transactions := []\<rparr>)\<rparr>)"
  by (auto simp: evolves_def stream_step_def tx_step_def conn_cores_def conn_core_def fun_eq_iff)

lemma cleanup_evolves:
  "\<exists>evs. evolves UNIV w evs (cleanup f c w) \<and> list_all is_cleanup_event evs"
proof (cases "conns w c")
  case None
  then show ?thesis by (auto simp: cleanup_def intro: exI [of _ "[]"] evolves_refl)
next
  case (Some cn)
  let ?w0 = "w\<lparr>conns := (conns w)(c \<mapsto> cn\<lparr>transactions := []\<rparr>)\<rparr>"
  let ?w1 = "dispose_each f (transactions cn) ?w0"
  obtain e1 where e1: "evolves (set (transactions cn)) ?w0 e1 ?w1" "list_all is_cleanup_event e1"
    using dispose_each_evolves by blast
  obtain e2 where e2: "evolves {} ?w1 e2 (close_tracked_streams f c ?w1)" "list_all is_close_event e2"
    using close_tracked_streams_evolves by blast
  have "evolves ({} \<union> (set (transactions cn) \<union> {})) w ([] @ e1 @ e2) (close_tracked_streams f c ?w1)"
    by (rule evolves_trans [OF clear_transactions_evolves [OF Some] evolves_trans [OF e1(1) e2(1)]])
  then have "evolves UNIV w (e1 @ e2) (cleanup f c w)"
    using Some by (auto simp: cleanup_def intro: evolves_mono)
  with e1(2) e2(2) show ?thesis
    by (auto simp: list_all_iff close_is_cleanup intro!: exI [of _ "e1 @ e2"])
qed

lemma cleanup_order:
  assumes "conns w c = Some cn" and "t \<in> set (transactions cn)" and "txs w t = Some tx"
    and "isActive tx"
  shows "\<exists>pre post. trace (cleanup f c w) = trace w @ pre @ Rollback (txConnId tx) (txId tx) # post \<and>
          (\<forall>r s. r \<in> set (txStreams tx) \<and> strs w r = Some s \<and> \<not> isClosed s \<longrightarrow>
                 StreamClose (cursorId s) \<in> set pre) \<and>
          (\<forall>e\<in>set pre. is_close_event e \<or>
             (\<exists>t' tx'. t' \<in> set (transactions cn) \<and> t' \<noteq> t \<and> txs w t' = Some tx' \<and>
                       e = Rollback (txConnId tx') (txId tx')))"
proof -
  let ?w0 = "w\<lparr>conns := (conns w)(c \<mapsto> cn\<lparr>transactions := []\<rparr>)\<rparr>"
  let ?w1 = "dispose_each f (transactions cn) ?w0"
  have "txs ?w0 t = Some tx" using assms(3) by simp
  from dispose_each_order [OF assms(2) this assms(4), of f]
  obtain pre post where o: "trace ?w1 = trace w @ pre @ Rollback (txConnId tx) (txId tx) # post"
      "\<forall>r s. r \<in> set (txStreams tx) \<and> strs w r = Some s \<and> \<not> isClosed s \<longrightarrow>
             StreamClose (cursorId s) \<in> set pre"
      "\<forall>e\<in>set pre. is_close_event e \<or>
         (\<exists>t' tx'. t' \<in> set (transactions cn) \<and> t' \<noteq> t \<and> txs w t' = Some tx' \<and>
                   e = Rollback (txConnId tx') (txId tx'))"
    by auto
  obtain e2 where "evolves {} ?w1 e2 (close_tracked_streams f c ?w1)"
    using close_tracked_streams_evolves by blast
  then have "trace (cleanup f c w) = trace w @ pre @ Rollback (txConnId tx) (txId tx) # (post @ e2)"
    using assms(1) o(1) by (simp add: cleanup_def evolves_def)
  with o(2,3) show ?thesis by blast
qed

lemma forceInactive_evolves:
  "\<exists>evs. evolves {t} w evs (forceInactive f t w) \<and> list_all is_close_event evs"
proof -
  let ?w1 = "closeAllStreams f t w"
  obtain evs where c: "evolves {} w evs ?w1" "list_all is_close_event evs"
    using closeAllStreams_evolves by blast
  have step: "evolves {t} ?w1 [] (set_rolledBack t ?w1)"
    by (auto simp: evolves_def stream_step_def tx_step_def conn_cores_def set_rolledBack_def
        isActive_def fun_eq_iff split: option.splits)
  have "evolves {t} w evs (forceInactive f t w)"
    using evolves_trans [OF c(1) step] evolves_mono [OF c(1), of "{t}"]
    by (auto simp: forceInactive_def Let_def split: option.splits)
  with c(2) show ?thesis by blast
qed

lemma force_each_Cons:
  "force_each f (t # ts) (b, w) =
     force_each f ts (case txs w t of
                        None \<Rightarrow> (b, w)
                      | Some tx \<Rightarrow> (b \<or> isActive tx, forceInactive f t w))"
  by (simp add: force_each_def)

lemma force_each_evolves:
  "\<exists>evs. evolves (set ts) w evs (snd (force_each f ts (b, w))) \<and> list_all is_close_event evs"
proof (induction ts arbitrary: b w)
  case Nil
  show ?case by (auto simp: force_each_def intro: exI [of _ "[]"] evolves_refl)
next
  case (Cons t ts)
  show ?case
  proof (cases "txs w t")
    case None
    obtain evs where "evolves (set ts) w evs (snd (force_each f ts (b, w)))" "list_all is_close_event evs"
      using Cons.IH by blast
    with None show ?thesis
      by (auto simp: force_each_Cons intro!: exI [of _ evs] intro: evolves_mono)
  next
    case (Some tx)
    let ?w1 = "forceInactive f t w"
    obtain e1 where e1: "evolves {t} w e1 ?w1" "list_all is_close_event e1"
      using forceInactive_evolves by blast
    obtain e2 where e2: "evolves (set ts) ?w1 e2 (snd (force_each f ts (b \<or> isActive tx, ?w1)))"
        "list_all is_close_event e2"
      using Cons.IH by blast
    from evolves_trans [OF e1(1) e2(1)] e1(2) e2(2) Some show ?thesis
      by (auto simp: force_each_Cons intro!: exI [of _ "e1 @ e2"])
  qed
qed

lemma force_each_keeps_true: "fst (force_each f ts (True, w))"
  by (induction ts arbitrary: w) (auto simp: force_each_Cons force_each_def split: option.splits)

lemma force_each_finds_active:
  "t \<in> set ts \<Longrightarrow> txs w t = Some tx \<Longrightarrow> isActive tx \<Longrightarrow> fst (force_each f ts (b, w))"
proof (induction ts arbitrary: b w tx)
  case Nil
  then show ?case by simp
next
  case (Cons t0 ts)
  show ?case
  proof (cases "t0 = t")
    case True
    with Cons.prems show ?thesis by (simp add: force_each_Cons force_each_keeps_true)
  next
    case False
    with Cons.prems(1) have mem: "t \<in> set ts" by simp
    show ?thesis
    proof (cases "txs w t0")
      case None
      with Cons.IH [OF mem Cons.prems(2,3)] show ?thesis by (simp add: force_each_Cons)
    next
      case (Some tx0)
      obtain e where "evolves {t0} w e (forceInactive f t0 w)"
        using forceInactive_evolves by blast
      from evolves_tx_unchanged [OF this Cons.prems(2)] False Cons.prems(3)
      obtain tx1 where "txs (forceInactive f t0 w) t = Some tx1" "isActive tx1" by auto
      from Cons.IH [OF mem this] Some show ?thesis by (simp add: force_each_Cons)
    qed
  qed
qed

lemma force_each_none_active:
  "\<forall>t\<in>set ts. \<forall>tx. txs w t = Some tx \<longrightarrow> \<not> isActive tx \<Longrightarrow> \<not> fst (force_each f ts (False, w))"
proof (induction ts arbitrary: w)
  case Nil
  show ?case by (simp add: force_each_def)
next
  case (Cons t0 ts)
  show ?case
  proof (cases "txs w t0")
    case None
    with Cons show ?thesis by (simp add: force_each_Cons)
  next
    case (Some tx0)
    obtain e where e: "evolves {t0} w e (forceInactive f t0 w)"
      using forceInactive_evolves by blast
    have "\<forall>t\<in>set ts. \<forall>tx. txs (forceInactive f t0 w) t = Some tx \<longrightarrow> \<not> isActive tx"
    proof (intro ballI allI impI)
      fix t tx assume t: "t \<in> set ts" and tx: "txs (forceInactive f t0 w) t = Some tx"
      show "\<not> isActive tx"
      proof (cases "txs w t")
        case None
        with e have "txs (forceInactive f t0 w) t = None"
          unfolding evolves_def by blast
        with tx show ?thesis by simp
      next
        case (Some tx')
        with evolves_txD [OF e Some] tx have "isActive tx \<longrightarrow> isActive tx'"
          by auto
        with Cons.prems t Some show ?thesis by auto
      qed
    qed
    from Cons.IH [OF this] Some Cons.prems show ?thesis by (simp add: force_each_Cons)
  qed
qed

section \<open>Basic facts\<close>

lemma world_with_transaction_eq:
  "world_with_transaction =
     \<lparr>conns = [0 \<mapsto> \<lparr>connId = 1, poolId = Some 10, disposed = False, hasError = False,
                       streams = [], transactions = [0]\<rparr>],
      txs = [0 \<mapsto> \<lparr>txId = ''tx-1'', isolation = READ_COMMITTED, committed = False,
                     rolledBack = False, txConnId = 1, txStreams = []\<rparr>],
      strs = Map.empty,
      trace = [BeginTransaction 1 ''tx-1'' READ_COMMITTED]\<rparr>"
  by (simp add: world_with_transaction_def beginTransaction_def new_connection_def empty_world_def
      mock_ffi_def ensureOpen_def no_options_def emit_def set_add_def)

section \<open>Transaction: commit and rollback\<close>

lemma commit_fails:
  "txs w t = Some tx \<Longrightarrow> isActive tx \<Longrightarrow>
   ffi_commit f (trace w) (txConnId tx) (txId tx) = Some err \<Longrightarrow>
   commit f t w = (Some (CommitFailed err), emit (Commit (txConnId tx) (txId tx)) w)"
  by (simp add: commit_def ensureActive_def commitFn_def)

lemma commit_succeeds:
  "txs w t = Some tx \<Longrightarrow> isActive tx \<Longrightarrow>
   ffi_commit f (trace w) (txConnId tx) (txId tx) = None \<Longrightarrow>
   commit f t w = (None, set_committed t (emit (Commit (txConnId tx) (txId tx)) w))"
  by (simp add: commit_def ensureActive_def commitFn_def)

lemma rollback_fails:
  "txs w t = Some tx \<Longrightarrow> isActive tx \<Longrightarrow>
   ffi_rollback f (trace w) (txConnId tx) (txId tx) = Some err \<Longrightarrow>
   rollback f t w = (Some (RollbackFailed err), emit (Rollback (txConnId tx) (txId tx)) w)"
  by (simp add: rollback_def ensureActive_def rollbackFn_def)

lemma rollback_succeeds:
  "txs w t = Some tx \<Longrightarrow> isActive tx \<Longrightarrow>
   ffi_rollback f (trace w) (txConnId tx) (txId tx) = None \<Longrightarrow>
   rollback f t w = (None, set_rolledBack t (emit (Rollback (txConnId tx) (txId tx)) w))"
  by (simp add: rollback_def ensureActive_def rollbackFn_def)

lemma rollback_reaches_boundary:
  "txs w t = Some tx \<Longrightarrow> isActive tx \<Longrightarrow>
   trace (snd (rollback f t w)) = trace w @ [Rollback (txConnId tx) (txId tx)]"
  by (cases "ffi_rollback f (trace w) (txConnId tx) (txId tx)")
     (simp_all add: rollback_fails rollback_succeeds emit_def set_rolledBack_def)

lemma commit_reaches_boundary:
  "txs w t = Some tx \<Longrightarrow> isActive tx \<Longrightarrow>
   trace (snd (commit f t w)) = trace w @ [Commit (txConnId tx) (txId tx)]"
  by (cases "ffi_commit f (trace w) (txConnId tx) (txId tx)")
     (simp_all add: commit_fails commit_succeeds emit_def set_committed_def)

text \<open>
  C10. On an active transaction, a failed commit (rollback) boundary call leaves the
  transaction exactly as it was: the call throws, no flag is set, the store of transactions
  is unchanged, and a rollback (commit) issued next still reaches the boundary. The
  committed (rolled-back) flag is set when, and only when, the boundary call succeeded.
\<close>

theorem failed_commit_or_rollback_leaves_transaction_active:
  assumes "txs w t = Some tx" and "isActive tx"
  shows "(\<forall>err. ffi_commit f (trace w) (txConnId tx) (txId tx) = Some err \<longrightarrow>
            fst (commit f t w) = Some (CommitFailed err) \<and>
            txs (snd (commit f t w)) = txs w \<and>
            trace (snd (commit f t w)) = trace w @ [Commit (txConnId tx) (txId tx)] \<and>
            trace (snd (rollback f t (snd (commit f t w)))) =
              trace w @ [Commit (txConnId tx) (txId tx), Rollback (txConnId tx) (txId tx)]) \<and>
         (\<forall>err. ffi_rollback f (trace w) (txConnId tx) (txId tx) = Some err \<longrightarrow>
            fst (rollback f t w) = Some (RollbackFailed err) \<and>
            txs (snd (rollback f t w)) = txs w \<and>
            trace (snd (rollback f t w)) = trace w @ [Rollback (txConnId tx) (txId tx)] \<and>
            trace (snd (commit f t (snd (rollback f t w)))) =
              trace w @ [Rollback (txConnId tx) (txId tx), Commit (txConnId tx) (txId tx)]) \<and>
         (ffi_commit f (trace w) (txConnId tx) (txId tx) = None \<longrightarrow>
            fst (commit f t w) = None \<and>
            txs (snd (commit f t w)) t = Some (tx\<lparr>committed := True\<rparr>)) \<and>
         (ffi_rollback f (trace w) (txConnId tx) (txId tx) = None \<longrightarrow>
            fst (rollback f t w) = None \<and>
            txs (snd (rollback f t w)) t = Some (tx\<lparr>rolledBack := True\<rparr>))"
proof -
  let ?c = "Commit (txConnId tx) (txId tx)" and ?r = "Rollback (txConnId tx) (txId tx)"
  have still: "txs (emit e w) t = Some tx" for e
    using assms(1) by (simp add: emit_def)
  have after_commit: "trace (snd (rollback f t (emit ?c w))) = trace w @ [?c, ?r]"
    using rollback_reaches_boundary [OF still assms(2)] by (simp add: emit_def)
  have after_rollback: "trace (snd (commit f t (emit ?r w))) = trace w @ [?r, ?c]"
    using commit_reaches_boundary [OF still assms(2)] by (simp add: emit_def)
  show ?thesis
    using assms after_commit after_rollback
    by (auto simp: commit_fails rollback_fails commit_succeeds rollback_succeeds emit_def
        set_committed_def set_rolledBack_def)
qed

theorem failed_commit_or_rollback_leaves_transaction_active_witness:
  "txs world_with_transaction 0 =
     Some \<lparr>txId = ''tx-1'', isolation = READ_COMMITTED, committed = False, rolledBack = False,
           txConnId = 1, txStreams = []\<rparr> \<and>
   isActive \<lparr>txId = ''tx-1'', isolation = READ_COMMITTED, committed = False, rolledBack = False,
             txConnId = 1, txStreams = []\<rparr> \<and>
   ffi_commit failing_ffi (trace world_with_transaction) 1 ''tx-1'' = Some ''deadlock'' \<and>
   ffi_rollback failing_ffi (trace world_with_transaction) 1 ''tx-1'' = Some ''connection reset'' \<and>
   ffi_commit mock_ffi (trace world_with_transaction) 1 ''tx-1'' = None \<and>
   ffi_rollback mock_ffi (trace world_with_transaction) 1 ''tx-1'' = None \<and>
   fst (commit failing_ffi 0 world_with_transaction) = Some (CommitFailed ''deadlock'') \<and>
   txs (snd (commit failing_ffi 0 world_with_transaction)) = txs world_with_transaction \<and>
   trace (snd (rollback failing_ffi 0 (snd (commit failing_ffi 0 world_with_transaction)))) =
     [BeginTransaction 1 ''tx-1'' READ_COMMITTED, Commit 1 ''tx-1'', Rollback 1 ''tx-1''] \<and>
   fst (rollback failing_ffi 0 world_with_transaction) = Some (RollbackFailed ''connection reset'') \<and>
   txs (snd (rollback failing_ffi 0 world_with_transaction)) = txs world_with_transaction \<and>
   fst (commit mock_ffi 0 world_with_transaction) = None \<and>
   map_option committed (txs (snd (commit mock_ffi 0 world_with_transaction)) 0) = Some True \<and>
   fst (rollback mock_ffi 0 world_with_transaction) = None \<and>
   map_option rolledBack (txs (snd (rollback mock_ffi 0 world_with_transaction)) 0) = Some True"
  using failed_commit_or_rollback_leaves_transaction_active
          [of world_with_transaction 0
              "\<lparr>txId = ''tx-1'', isolation = READ_COMMITTED, committed = False,
                rolledBack = False, txConnId = 1, txStreams = []\<rparr>" failing_ffi]
        failed_commit_or_rollback_leaves_transaction_active
          [of world_with_transaction 0
              "\<lparr>txId = ''tx-1'', isolation = READ_COMMITTED, committed = False,
                rolledBack = False, txConnId = 1, txStreams = []\<rparr>" mock_ffi]
  by (simp add: world_with_transaction_eq isActive_def failing_ffi_def mock_ffi_def)

section \<open>Transaction: operations on an inactive transaction\<close>

lemma world_committed_eq:
  "world_committed =
     \<lparr>conns = [0 \<mapsto> \<lparr>connId = 1, poolId = Some 10, disposed = False, hasError = False,
                       streams = [], transactions = [0]\<rparr>],
      txs = [0 \<mapsto> \<lparr>txId = ''tx-1'', isolation = READ_COMMITTED, committed = True,
                     rolledBack = False, txConnId = 1, txStreams = []\<rparr>],
      strs = Map.empty,
      trace = [BeginTransaction 1 ''tx-1'' READ_COMMITTED, Commit 1 ''tx-1'']\<rparr>"
  by (simp add: world_committed_def world_with_transaction_eq commit_def ensureActive_def
      isActive_def commitFn_def mock_ffi_def emit_def set_committed_def)

lemma world_disposed_eq:
  "world_disposed =
     \<lparr>conns = [0 \<mapsto> \<lparr>connId = 1, poolId = Some 10, disposed = True, hasError = False,
                       streams = [], transactions = []\<rparr>],
      txs = [0 \<mapsto> \<lparr>txId = ''tx-1'', isolation = READ_COMMITTED, committed = False,
                     rolledBack = True, txConnId = 1, txStreams = []\<rparr>],
      strs = Map.empty,
      trace = [BeginTransaction 1 ''tx-1'' READ_COMMITTED, Rollback 1 ''tx-1'', PoolRelease 10 1]\<rparr>"
  by (simp add: world_disposed_def world_with_transaction_eq asyncDispose_def cleanup_def
      set_disposed_def dispose_each_def tx_asyncDispose_def closeAllStreams_def close_each_def
      isActive_def rollbackFn_def mock_ffi_def emit_def set_rolledBack_def
      close_tracked_streams_def release_or_disconnect_def)

text \<open>
  C3, as the code has it. \<open>isActive\<close> holds exactly when the transaction is neither
  committed nor rolled back. On an inactive transaction \<^verbatim>\<open>commit()\<close> and
  \<^verbatim>\<open>rollback()\<close> throw "Transaction is no longer active" and leave the world, trace
  included, as it was. A command issued with the transaction (\<^verbatim>\<open>query\<close>,
  \<^verbatim>\<open>execute\<close>, \<^verbatim>\<open>exec\<close>, \<^verbatim>\<open>queryStream\<close>) also throws before any boundary
  call, but \<^verbatim>\<open>#ensureOpen\<close> tests the connection and the signal first: the error is
  "Connection is closed" on a disposed connection, the abort reason under an aborted
  signal, and "Transaction is no longer active" otherwise.
\<close>

theorem inactive_transaction_fails_before_boundary:
  "(isActive tx \<longleftrightarrow> \<not> committed tx \<and> \<not> rolledBack tx) \<and>
   (txs w t = Some tx \<and> \<not> isActive tx \<longrightarrow>
      commit f t w = (Some TransactionNoLongerActive, w) \<and>
      rollback f t w = (Some TransactionNoLongerActive, w) \<and>
      (\<forall>c cn opts. conns w c = Some cn \<and> opt_transaction opts = Some t \<longrightarrow>
         (\<exists>e. e = (if disposed cn then ConnectionIsClosed
                    else if signalAborted opts then AbortError
                    else TransactionNoLongerActive) \<and>
              query js f c q ps opts w = (Inl e, w) \<and>
              execute js f c q ps opts w = (Inl e, w) \<and>
              exec js f c q ps opts w = (Inl e, w) \<and>
              queryStream js f c r q ps opts w = (Inl e, w))))"
  by (auto simp: isActive_def commit_def rollback_def ensureActive_def ensureOpen_def
      query_def execute_def exec_def queryStream_def)

theorem inactive_transaction_fails_before_boundary_witness:
  "txs world_committed 0 =
     Some \<lparr>txId = ''tx-1'', isolation = READ_COMMITTED, committed = True, rolledBack = False,
           txConnId = 1, txStreams = []\<rparr> \<and>
   \<not> isActive \<lparr>txId = ''tx-1'', isolation = READ_COMMITTED, committed = True, rolledBack = False,
               txConnId = 1, txStreams = []\<rparr> \<and>
   conns world_committed 0 =
     Some \<lparr>connId = 1, poolId = Some 10, disposed = False, hasError = False, streams = [],
           transactions = [0]\<rparr> \<and>
   opt_transaction (with_transaction 0) = Some 0 \<and>
   commit mock_ffi 0 world_committed = (Some TransactionNoLongerActive, world_committed) \<and>
   rollback mock_ffi 0 world_committed = (Some TransactionNoLongerActive, world_committed) \<and>
   query test_engine mock_ffi 0 ''SELECT 1'' None (with_transaction 0) world_committed =
     (Inl TransactionNoLongerActive, world_committed) \<and>
   execute test_engine mock_ffi 0 ''SELECT 1'' None (with_transaction 0) world_committed =
     (Inl TransactionNoLongerActive, world_committed) \<and>
   exec test_engine mock_ffi 0 ''SELECT 1'' None (with_transaction 0) world_committed =
     (Inl TransactionNoLongerActive, world_committed) \<and>
   queryStream test_engine mock_ffi 0 0 ''SELECT 1'' None (with_transaction 0) world_committed =
     (Inl TransactionNoLongerActive, world_committed)"
proof -
  let ?tx = "\<lparr>txId = ''tx-1'', isolation = READ_COMMITTED, committed = True, rolledBack = False,
              txConnId = 1, txStreams = []\<rparr>"
  let ?cn = "\<lparr>connId = 1, poolId = Some 10, disposed = False, hasError = False, streams = [],
              transactions = [0]\<rparr>"
  have h1: "txs world_committed 0 = Some ?tx" by (simp add: world_committed_eq)
  have h2: "\<not> isActive ?tx" by (simp add: isActive_def)
  have h3: "conns world_committed 0 = Some ?cn" by (simp add: world_committed_eq)
  have h4: "opt_transaction (with_transaction 0) = Some 0"
    by (simp add: with_transaction_def no_options_def)
  have h5: "\<not> disposed ?cn" "\<not> signalAborted (with_transaction 0)"
    by (simp_all add: with_transaction_def no_options_def)
  from inactive_transaction_fails_before_boundary
         [of ?tx world_committed 0 mock_ffi test_engine "''SELECT 1''" None 0]
  show ?thesis using h1 h2 h3 h4 h5 by fastforce
qed

text \<open>
  The claim as stated fails: after the connection was disposed, its transaction is inactive
  and a query issued with it throws "Connection is closed", not "Transaction is no longer
  active".
\<close>

theorem command_on_closed_connection_counterexample:
  "map_option isActive (txs world_disposed 0) = Some False \<and>
   query test_engine mock_ffi 0 ''SELECT 1'' None (with_transaction 0) world_disposed =
     (Inl ConnectionIsClosed, world_disposed) \<and>
   fst (query test_engine mock_ffi 0 ''SELECT 1'' None (with_transaction 0) world_disposed) \<noteq>
     Inl TransactionNoLongerActive"
  by (simp add: world_disposed_eq isActive_def query_def ensureOpen_def with_transaction_def
      no_options_def)

section \<open>Disposal of connections and transactions\<close>

lemmas eval_defs =
  queryStream_def query_def ensureOpen_def ensureActive_def isActive_def transaction_id_of_def
  serializeCommand_def serializeParams_def INVALID_HANDLE_def track_in_connection_def
  onClose_def trackStream_def set_add_def set_delete_def emit_def no_options_def
  with_transaction_def mock_ffi_def failing_ffi_def query_error_ffi_def command_failed_def
  set_hasError_def commit_def commitFn_def set_committed_def rollbackFn_def set_rolledBack_def
  asyncDispose_def dispose_def cleanup_def syncCleanup_def set_disposed_def dispose_each_def
  force_each_def forceInactive_def tx_asyncDispose_def closeAllStreams_def close_each_def
  close_def run_callbacks_def close_tracked_streams_def release_or_disconnect_def
  new_connection_def empty_world_def

lemma world_tx_stream_eq:
  "world_tx_stream =
     \<lparr>conns = [0 \<mapsto> \<lparr>connId = 1, poolId = Some 10, disposed = False, hasError = False,
                       streams = [0], transactions = [0]\<rparr>],
      txs = [0 \<mapsto> \<lparr>txId = ''tx-1'', isolation = READ_COMMITTED, committed = False,
                     rolledBack = False, txConnId = 1, txStreams = [0]\<rparr>],
      strs = [0 \<mapsto> \<lparr>cursorId = 1, isDone = False, isClosed = False,
                      onCloseCallbacks = [UntrackFromConnection 0, UntrackFromTransaction 0]\<rparr>],
      trace = [BeginTransaction 1 ''tx-1'' READ_COMMITTED,
               QueryStreamOpen 1 \<lparr>sql = ''SELECT 1'', params = [], transaction_id = Some ''tx-1'',
                 command_timeout_ms = None, command_type = CmdText\<rparr>]\<rparr>"
  by (simp add: world_tx_stream_def world_with_transaction_eq eval_defs)

lemma world_tx_stream_committed_eq:
  "world_tx_stream_committed =
     \<lparr>conns = [0 \<mapsto> \<lparr>connId = 1, poolId = Some 10, disposed = False, hasError = False,
                       streams = [0], transactions = [0]\<rparr>],
      txs = [0 \<mapsto> \<lparr>txId = ''tx-1'', isolation = READ_COMMITTED, committed = True,
                     rolledBack = False, txConnId = 1, txStreams = [0]\<rparr>],
      strs = [0 \<mapsto> \<lparr>cursorId = 1, isDone = False, isClosed = False,
                      onCloseCallbacks = [UntrackFromConnection 0, UntrackFromTransaction 0]\<rparr>],
      trace = [BeginTransaction 1 ''tx-1'' READ_COMMITTED,
               QueryStreamOpen 1 \<lparr>sql = ''SELECT 1'', params = [], transaction_id = Some ''tx-1'',
                 command_timeout_ms = None, command_type = CmdText\<rparr>,
               Commit 1 ''tx-1'']\<rparr>"
  by (simp add: world_tx_stream_committed_def world_tx_stream_eq eval_defs)

lemma world_after_error_eq:
  "world_after_error =
     \<lparr>conns = [0 \<mapsto> \<lparr>connId = 1, poolId = Some 10, disposed = False, hasError = True,
                       streams = [], transactions = []\<rparr>],
      txs = Map.empty,
      strs = Map.empty,
      trace = [Query 1 \<lparr>sql = ''BAD SQL'', params = [], transaction_id = None,
                 command_timeout_ms = None, command_type = CmdText\<rparr>,
               LastError 1]\<rparr>"
  by (simp add: world_after_error_def eval_defs)

lemma dispose_tx_stream:
  "trace (asyncDispose mock_ffi 0 world_tx_stream) =
     trace world_tx_stream @ [StreamClose 1, Rollback 1 ''tx-1'', PoolRelease 10 1]"
  "trace (asyncDispose failing_ffi 0 world_tx_stream) =
     trace world_tx_stream @ [StreamClose 1, Rollback 1 ''tx-1'', PoolRelease 10 1]"
  "trace (dispose mock_ffi 0 world_tx_stream) =
     trace world_tx_stream @ [StreamClose 1, Disconnect 1]"
  "trace (tx_asyncDispose failing_ffi 0 world_tx_stream) =
     trace world_tx_stream @ [StreamClose 1, Rollback 1 ''tx-1'']"
  "trace (tx_asyncDispose mock_ffi 0 world_tx_stream_committed) =
     trace world_tx_stream_committed @ [StreamClose 1]"
  "trace (asyncDispose mock_ffi 0 world_after_error) = trace world_after_error @ [Disconnect 1]"
  "trace (dispose mock_ffi 0 world_with_transaction) = trace world_with_transaction @ [Disconnect 1]"
  "trace (dispose mock_ffi 0 world_after_error) = trace world_after_error @ [Disconnect 1]"
  "trace (dispose mock_ffi 0 world_committed) = trace world_committed @ [PoolRelease 10 1]"
  "trace (dispose mock_ffi 0 world_with_stream) = trace world_with_stream @ [StreamClose 1, Disconnect 1]"
  "trace (asyncDispose mock_ffi 0 world_with_stream) =
     trace world_with_stream @ [StreamClose 1, Disconnect 1]"
  by (simp_all add: world_tx_stream_eq world_tx_stream_committed_eq world_after_error_eq
      world_with_transaction_eq world_committed_eq world_with_stream_eq eval_defs)

lemma set_disposed_props:
  "conns w c = Some cn \<Longrightarrow>
   conns (set_disposed c w) c = Some (cn\<lparr>disposed := True\<rparr>) \<and>
   trace (set_disposed c w) = trace w \<and> txs (set_disposed c w) = txs w \<and>
   strs (set_disposed c w) = strs w"
  by (simp add: set_disposed_def)

lemma asyncDispose_trace:
  assumes "conns w c = Some cn" and "\<not> disposed cn"
  shows "\<exists>evs. trace (asyncDispose f c w) =
           trace w @ evs @
             [case poolId cn of
                None \<Rightarrow> Disconnect (connId cn)
              | Some p \<Rightarrow> if hasError cn then Disconnect (connId cn)
                          else PoolRelease p (connId cn)] \<and>
           list_all is_cleanup_event evs"
proof -
  let ?wd = "set_disposed c w"
  let ?w2 = "cleanup f c ?wd"
  note d = set_disposed_props [OF assms(1)]
  obtain evs where ev: "evolves UNIV ?wd evs ?w2" "list_all is_cleanup_event evs"
    using cleanup_evolves by blast
  from evolves_conn [OF ev(1), of c "cn\<lparr>disposed := True\<rparr>"] d
  obtain cn2 where cn2: "conns ?w2 c = Some cn2" "connId cn2 = connId cn" "poolId cn2 = poolId cn"
      "hasError cn2 = hasError cn"
    by auto
  have "trace ?w2 = trace w @ evs" using ev(1) d by (simp add: evolves_def)
  then have "trace (asyncDispose f c w) =
           trace w @ evs @
             [case poolId cn of
                None \<Rightarrow> Disconnect (connId cn)
              | Some p \<Rightarrow> if hasError cn then Disconnect (connId cn)
                          else PoolRelease p (connId cn)]"
    using assms cn2
    by (auto simp: asyncDispose_def release_or_disconnect_def emit_def split: option.splits)
  with ev(2) show ?thesis by blast
qed

lemma syncCleanup_props:
  assumes "conns w c = Some cn"
  shows "\<exists>evs. evolves UNIV w evs (snd (syncCleanup f c w)) \<and> list_all is_close_event evs \<and>
           (fst (syncCleanup f c w) \<longleftrightarrow>
              (\<exists>t\<in>set (transactions cn). \<exists>tx. txs w t = Some tx \<and> isActive tx))"
proof -
  let ?w0 = "w\<lparr>conns := (conns w)(c \<mapsto> cn\<lparr>transactions := []\<rparr>)\<rparr>"
  let ?r = "force_each f (transactions cn) (False, ?w0)"
  have eq: "syncCleanup f c w = (fst ?r, close_tracked_streams f c (snd ?r))"
    using assms by (simp add: syncCleanup_def split: prod.splits)
  obtain e1 where e1: "evolves (set (transactions cn)) ?w0 e1 (snd ?r)" "list_all is_close_event e1"
    using force_each_evolves by blast
  obtain e2 where e2: "evolves {} (snd ?r) e2 (close_tracked_streams f c (snd ?r))"
      "list_all is_close_event e2"
    using close_tracked_streams_evolves by blast
  have "evolves ({} \<union> (set (transactions cn) \<union> {})) w ([] @ e1 @ e2)
          (close_tracked_streams f c (snd ?r))"
    by (rule evolves_trans [OF clear_transactions_evolves [OF assms] evolves_trans [OF e1(1) e2(1)]])
  then have ev: "evolves UNIV w (e1 @ e2) (snd (syncCleanup f c w))"
    by (auto simp: eq intro: evolves_mono)
  have same: "txs ?w0 = txs w" by simp
  have had: "fst ?r \<longleftrightarrow> (\<exists>t\<in>set (transactions cn). \<exists>tx. txs w t = Some tx \<and> isActive tx)"
  proof
    assume "fst ?r"
    with force_each_none_active [of "transactions cn" ?w0 f] same
    show "\<exists>t\<in>set (transactions cn). \<exists>tx. txs w t = Some tx \<and> isActive tx" by auto
  next
    assume "\<exists>t\<in>set (transactions cn). \<exists>tx. txs w t = Some tx \<and> isActive tx"
    then obtain t tx where "t \<in> set (transactions cn)" "txs ?w0 t = Some tx" "isActive tx"
      by auto
    from force_each_finds_active [OF this] show "fst ?r" .
  qed
  from ev e1(2) e2(2) had show ?thesis
    by (auto simp: eq intro!: exI [of _ "e1 @ e2"])
qed

lemma dispose_trace:
  assumes "conns w c = Some cn" and "\<not> disposed cn"
  shows "\<exists>evs. trace (dispose f c w) =
           trace w @ evs @
             [case poolId cn of
                None \<Rightarrow> Disconnect (connId cn)
              | Some p \<Rightarrow>
                  if \<not> hasError cn \<and>
                     \<not> (\<exists>t\<in>set (transactions cn). \<exists>tx. txs w t = Some tx \<and> isActive tx)
                  then PoolRelease p (connId cn) else Disconnect (connId cn)] \<and>
           list_all is_close_event evs"
proof -
  let ?wd = "set_disposed c w"
  let ?r = "syncCleanup f c ?wd"
  note d = set_disposed_props [OF assms(1)]
  have dc: "conns ?wd c = Some (cn\<lparr>disposed := True\<rparr>)" using d by simp
  from syncCleanup_props [OF dc, of f]
  obtain evs where ev: "evolves UNIV ?wd evs (snd ?r)" "list_all is_close_event evs"
      "fst ?r \<longleftrightarrow> (\<exists>t\<in>set (transactions cn). \<exists>tx. txs w t = Some tx \<and> isActive tx)"
    using d by auto
  from evolves_conn [OF ev(1) dc]
  obtain cn2 where cn2: "conns (snd ?r) c = Some cn2" "connId cn2 = connId cn"
      "poolId cn2 = poolId cn" "hasError cn2 = hasError cn"
    by auto
  have tr: "trace (snd ?r) = trace w @ evs" using ev(1) d by (simp add: evolves_def)
  have "dispose f c w = release_or_disconnect c (fst ?r) (snd ?r)"
    using assms by (simp add: dispose_def split: prod.splits)
  then have "trace (dispose f c w) =
           trace w @ evs @
             [case poolId cn of
                None \<Rightarrow> Disconnect (connId cn)
              | Some p \<Rightarrow>
                  if \<not> hasError cn \<and>
                     \<not> (\<exists>t\<in>set (transactions cn). \<exists>tx. txs w t = Some tx \<and> isActive tx)
                  then PoolRelease p (connId cn) else Disconnect (connId cn)]"
    using cn2 tr ev(3)
    by (auto simp: release_or_disconnect_def emit_def split: option.splits)
  with ev(2) show ?thesis by blast
qed

text \<open>
  C1. Disposing a connection that is already disposed does nothing. Otherwise, whether the
  disposal is asynchronous or synchronous, an error-flagged or standalone connection ends
  with \<^verbatim>\<open>disconnect\<close>, with no \<^verbatim>\<open>poolRelease\<close> before it. Asynchronous disposal of a
  pool-owned connection without the error flag ends with \<^verbatim>\<open>poolRelease\<close>, and before
  it only streams are closed and transactions rolled back (no \<^verbatim>\<open>disconnect\<close>).
  Synchronous disposal of a pool-owned connection while an owned transaction is active
  ends with \<^verbatim>\<open>disconnect\<close>, and before it only streams are closed; with no error flag
  and no active owned transaction it ends with \<^verbatim>\<open>poolRelease\<close>.
\<close>

theorem disposal_releases_or_disconnects:
  assumes "conns w c = Some cn"
  shows "(disposed cn \<longrightarrow> asyncDispose f c w = w \<and> dispose f c w = w) \<and>
         (\<not> disposed cn \<longrightarrow>
            (\<forall>p. poolId cn = Some p \<and> \<not> hasError cn \<longrightarrow>
               (\<exists>evs. trace (asyncDispose f c w) = trace w @ evs @ [PoolRelease p (connId cn)] \<and>
                      list_all is_cleanup_event evs)) \<and>
            (hasError cn \<or> poolId cn = None \<longrightarrow>
               (\<exists>evs. trace (asyncDispose f c w) = trace w @ evs @ [Disconnect (connId cn)] \<and>
                      list_all is_cleanup_event evs) \<and>
               (\<exists>evs. trace (dispose f c w) = trace w @ evs @ [Disconnect (connId cn)] \<and>
                      list_all is_close_event evs)) \<and>
            (\<forall>t tx. t \<in> set (transactions cn) \<and> txs w t = Some tx \<and> isActive tx \<longrightarrow>
               (\<exists>evs. trace (dispose f c w) = trace w @ evs @ [Disconnect (connId cn)] \<and>
                      list_all is_close_event evs)) \<and>
            (\<forall>p. poolId cn = Some p \<and> \<not> hasError cn \<and>
                 \<not> (\<exists>t tx. t \<in> set (transactions cn) \<and> txs w t = Some tx \<and> isActive tx) \<longrightarrow>
               (\<exists>evs. trace (dispose f c w) = trace w @ evs @ [PoolRelease p (connId cn)] \<and>
                      list_all is_close_event evs)))"
proof (intro conjI impI allI)
  assume "disposed cn"
  with assms show "asyncDispose f c w = w" "dispose f c w = w"
    by (simp_all add: asyncDispose_def dispose_def)
next
  fix p assume "\<not> disposed cn" "poolId cn = Some p \<and> \<not> hasError cn"
  with asyncDispose_trace [OF assms, of f]
  show "\<exists>evs. trace (asyncDispose f c w) = trace w @ evs @ [PoolRelease p (connId cn)] \<and>
              list_all is_cleanup_event evs"
    by auto
next
  assume "\<not> disposed cn" "hasError cn \<or> poolId cn = None"
  with asyncDispose_trace [OF assms, of f]
  show "\<exists>evs. trace (asyncDispose f c w) = trace w @ evs @ [Disconnect (connId cn)] \<and>
              list_all is_cleanup_event evs"
    by (cases "poolId cn") auto
next
  assume nd: "\<not> disposed cn" and "hasError cn \<or> poolId cn = None"
  with dispose_trace [OF assms nd, of f]
  show "\<exists>evs. trace (dispose f c w) = trace w @ evs @ [Disconnect (connId cn)] \<and>
              list_all is_close_event evs"
    by (cases "poolId cn") auto
next
  fix t tx assume nd: "\<not> disposed cn"
    and "t \<in> set (transactions cn) \<and> txs w t = Some tx \<and> isActive tx"
  then have "\<exists>t\<in>set (transactions cn). \<exists>tx. txs w t = Some tx \<and> isActive tx" by blast
  with dispose_trace [OF assms nd, of f]
  show "\<exists>evs. trace (dispose f c w) = trace w @ evs @ [Disconnect (connId cn)] \<and>
              list_all is_close_event evs"
    by (cases "poolId cn") auto
next
  fix p assume nd: "\<not> disposed cn"
    and h: "poolId cn = Some p \<and> \<not> hasError cn \<and>
            \<not> (\<exists>t tx. t \<in> set (transactions cn) \<and> txs w t = Some tx \<and> isActive tx)"
  then have "\<not> (\<exists>t\<in>set (transactions cn). \<exists>tx. txs w t = Some tx \<and> isActive tx)" by blast
  with dispose_trace [OF assms nd, of f] h
  show "\<exists>evs. trace (dispose f c w) = trace w @ evs @ [PoolRelease p (connId cn)] \<and>
              list_all is_close_event evs"
    by auto
qed

theorem disposal_releases_or_disconnects_witness:
  "conns world_tx_stream 0 =
     Some \<lparr>connId = 1, poolId = Some 10, disposed = False, hasError = False, streams = [0],
           transactions = [0]\<rparr> \<and>
   (\<exists>evs. trace (asyncDispose mock_ffi 0 world_tx_stream) =
             trace world_tx_stream @ evs @ [PoolRelease 10 1] \<and> list_all is_cleanup_event evs) \<and>
   trace (asyncDispose mock_ffi 0 world_tx_stream) =
     trace world_tx_stream @ [StreamClose 1, Rollback 1 ''tx-1'', PoolRelease 10 1] \<and>
   txs world_tx_stream 0 =
     Some \<lparr>txId = ''tx-1'', isolation = READ_COMMITTED, committed = False, rolledBack = False,
           txConnId = 1, txStreams = [0]\<rparr> \<and>
   (\<exists>evs. trace (dispose mock_ffi 0 world_tx_stream) =
             trace world_tx_stream @ evs @ [Disconnect 1] \<and> list_all is_close_event evs) \<and>
   trace (dispose mock_ffi 0 world_tx_stream) =
     trace world_tx_stream @ [StreamClose 1, Disconnect 1] \<and>
   conns world_after_error 0 =
     Some \<lparr>connId = 1, poolId = Some 10, disposed = False, hasError = True, streams = [],
           transactions = []\<rparr> \<and>
   (\<exists>evs. trace (asyncDispose mock_ffi 0 world_after_error) =
             trace world_after_error @ evs @ [Disconnect 1] \<and> list_all is_cleanup_event evs) \<and>
   (\<exists>evs. trace (dispose mock_ffi 0 world_after_error) =
             trace world_after_error @ evs @ [Disconnect 1] \<and> list_all is_close_event evs) \<and>
   trace (dispose mock_ffi 0 world_after_error) = trace world_after_error @ [Disconnect 1] \<and>
   conns world_with_stream 0 =
     Some \<lparr>connId = 1, poolId = None, disposed = False, hasError = False, streams = [0],
           transactions = []\<rparr> \<and>
   (\<exists>evs. trace (asyncDispose mock_ffi 0 world_with_stream) =
             trace world_with_stream @ evs @ [Disconnect 1] \<and> list_all is_cleanup_event evs) \<and>
   (\<exists>evs. trace (dispose mock_ffi 0 world_with_stream) =
             trace world_with_stream @ evs @ [Disconnect 1] \<and> list_all is_close_event evs) \<and>
   trace (dispose mock_ffi 0 world_with_stream) =
     trace world_with_stream @ [StreamClose 1, Disconnect 1] \<and>
   conns world_committed 0 =
     Some \<lparr>connId = 1, poolId = Some 10, disposed = False, hasError = False, streams = [],
           transactions = [0]\<rparr> \<and>
   txs world_committed 0 =
     Some \<lparr>txId = ''tx-1'', isolation = READ_COMMITTED, committed = True, rolledBack = False,
           txConnId = 1, txStreams = []\<rparr> \<and>
   (\<exists>evs. trace (dispose mock_ffi 0 world_committed) =
             trace world_committed @ evs @ [PoolRelease 10 1] \<and> list_all is_close_event evs) \<and>
   trace (dispose mock_ffi 0 world_committed) = trace world_committed @ [PoolRelease 10 1] \<and>
   conns world_disposed 0 =
     Some \<lparr>connId = 1, poolId = Some 10, disposed = True, hasError = False, streams = [],
           transactions = []\<rparr> \<and>
   asyncDispose mock_ffi 0 world_disposed = world_disposed \<and>
   dispose mock_ffi 0 world_disposed = world_disposed"
proof -
  let ?cn = "\<lparr>connId = 1, poolId = Some 10, disposed = False, hasError = False, streams = [0],
              transactions = [0]\<rparr>"
  let ?tx = "\<lparr>txId = ''tx-1'', isolation = READ_COMMITTED, committed = False, rolledBack = False,
              txConnId = 1, txStreams = [0]\<rparr>"
  let ?ce = "\<lparr>connId = 1, poolId = Some 10, disposed = False, hasError = True, streams = [],
              transactions = []\<rparr>"
  let ?cs = "\<lparr>connId = 1, poolId = None, disposed = False, hasError = False, streams = [0],
              transactions = []\<rparr>"
  let ?cc = "\<lparr>connId = 1, poolId = Some 10, disposed = False, hasError = False, streams = [],
              transactions = [0]\<rparr>"
  let ?tc = "\<lparr>txId = ''tx-1'', isolation = READ_COMMITTED, committed = True, rolledBack = False,
              txConnId = 1, txStreams = []\<rparr>"
  let ?cd = "\<lparr>connId = 1, poolId = Some 10, disposed = True, hasError = False, streams = [],
              transactions = []\<rparr>"
  have h1: "conns world_tx_stream 0 = Some ?cn" by (simp add: world_tx_stream_eq)
  have h2: "txs world_tx_stream 0 = Some ?tx" by (simp add: world_tx_stream_eq)
  have h3: "conns world_after_error 0 = Some ?ce" by (simp add: world_after_error_eq)
  have h4: "conns world_disposed 0 = Some ?cd" by (simp add: world_disposed_eq)
  have h5: "conns world_with_stream 0 = Some ?cs" by (simp add: world_with_stream_eq)
  have h6: "conns world_committed 0 = Some ?cc" by (simp add: world_committed_eq)
  have h7: "txs world_committed 0 = Some ?tc" by (simp add: world_committed_eq)
  have a: "\<not> disposed ?cn" "poolId ?cn = Some 10 \<and> \<not> hasError ?cn"
    "(0::nat) \<in> set (transactions ?cn) \<and> txs world_tx_stream 0 = Some ?tx \<and> isActive ?tx"
    "connId ?cn = 1"
    using h2 by (simp_all add: isActive_def)
  have b: "\<not> disposed ?ce" "hasError ?ce \<or> poolId ?ce = None" "connId ?ce = 1" "disposed ?cd"
    by simp_all
  have s: "\<not> disposed ?cs" "hasError ?cs \<or> poolId ?cs = None" "connId ?cs = 1"
    by simp_all
  have k: "\<not> disposed ?cc" "connId ?cc = 1"
    "poolId ?cc = Some 10 \<and> \<not> hasError ?cc \<and>
     \<not> (\<exists>t tx. t \<in> set (transactions ?cc) \<and> txs world_committed t = Some tx \<and> isActive tx)"
    using h7 by (auto simp: isActive_def)
  from disposal_releases_or_disconnects [OF h1, of mock_ffi] a
  have r1: "\<exists>evs. trace (asyncDispose mock_ffi 0 world_tx_stream) =
             trace world_tx_stream @ evs @ [PoolRelease 10 1] \<and> list_all is_cleanup_event evs"
    and r2: "\<exists>evs. trace (dispose mock_ffi 0 world_tx_stream) =
             trace world_tx_stream @ evs @ [Disconnect 1] \<and> list_all is_close_event evs"
    by (metis, metis)
  from disposal_releases_or_disconnects [OF h3, of mock_ffi] b
  have r3: "\<exists>evs. trace (asyncDispose mock_ffi 0 world_after_error) =
             trace world_after_error @ evs @ [Disconnect 1] \<and> list_all is_cleanup_event evs"
    and r5: "\<exists>evs. trace (dispose mock_ffi 0 world_after_error) =
             trace world_after_error @ evs @ [Disconnect 1] \<and> list_all is_close_event evs"
    by (metis, metis)
  from disposal_releases_or_disconnects [OF h5, of mock_ffi] s
  have r6: "\<exists>evs. trace (asyncDispose mock_ffi 0 world_with_stream) =
             trace world_with_stream @ evs @ [Disconnect 1] \<and> list_all is_cleanup_event evs"
    and r7: "\<exists>evs. trace (dispose mock_ffi 0 world_with_stream) =
             trace world_with_stream @ evs @ [Disconnect 1] \<and> list_all is_close_event evs"
    by (metis, metis)
  from disposal_releases_or_disconnects [OF h6, of mock_ffi] k
  have r8: "\<exists>evs. trace (dispose mock_ffi 0 world_committed) =
             trace world_committed @ evs @ [PoolRelease 10 1] \<and> list_all is_close_event evs"
    by metis
  from disposal_releases_or_disconnects [OF h4, of mock_ffi] b
  have r4: "asyncDispose mock_ffi 0 world_disposed = world_disposed"
    "dispose mock_ffi 0 world_disposed = world_disposed"
    by simp_all
  have c1: "conns world_tx_stream 0 = Some ?cn \<and>
      (\<exists>evs. trace (asyncDispose mock_ffi 0 world_tx_stream) =
             trace world_tx_stream @ evs @ [PoolRelease 10 1] \<and> list_all is_cleanup_event evs) \<and>
      trace (asyncDispose mock_ffi 0 world_tx_stream) =
        trace world_tx_stream @ [StreamClose 1, Rollback 1 ''tx-1'', PoolRelease 10 1] \<and>
      txs world_tx_stream 0 = Some ?tx \<and>
      (\<exists>evs. trace (dispose mock_ffi 0 world_tx_stream) =
             trace world_tx_stream @ evs @ [Disconnect 1] \<and> list_all is_close_event evs) \<and>
      trace (dispose mock_ffi 0 world_tx_stream) =
        trace world_tx_stream @ [StreamClose 1, Disconnect 1]"
    using h1 h2 r1 r2 dispose_tx_stream(1,3) by blast
  have c2: "conns world_after_error 0 = Some ?ce \<and>
      (\<exists>evs. trace (asyncDispose mock_ffi 0 world_after_error) =
             trace world_after_error @ evs @ [Disconnect 1] \<and> list_all is_cleanup_event evs) \<and>
      (\<exists>evs. trace (dispose mock_ffi 0 world_after_error) =
             trace world_after_error @ evs @ [Disconnect 1] \<and> list_all is_close_event evs) \<and>
      trace (dispose mock_ffi 0 world_after_error) = trace world_after_error @ [Disconnect 1]"
    using h3 r3 r5 dispose_tx_stream(8) by blast
  have c3: "conns world_with_stream 0 = Some ?cs \<and>
      (\<exists>evs. trace (asyncDispose mock_ffi 0 world_with_stream) =
             trace world_with_stream @ evs @ [Disconnect 1] \<and> list_all is_cleanup_event evs) \<and>
      (\<exists>evs. trace (dispose mock_ffi 0 world_with_stream) =
             trace world_with_stream @ evs @ [Disconnect 1] \<and> list_all is_close_event evs) \<and>
      trace (dispose mock_ffi 0 world_with_stream) =
        trace world_with_stream @ [StreamClose 1, Disconnect 1]"
    using h5 r6 r7 dispose_tx_stream(10) by blast
  have c4: "conns world_committed 0 = Some ?cc \<and> txs world_committed 0 = Some ?tc \<and>
      (\<exists>evs. trace (dispose mock_ffi 0 world_committed) =
             trace world_committed @ evs @ [PoolRelease 10 1] \<and> list_all is_close_event evs) \<and>
      trace (dispose mock_ffi 0 world_committed) = trace world_committed @ [PoolRelease 10 1]"
    using h6 h7 r8 dispose_tx_stream(9) by blast
  have c5: "conns world_disposed 0 = Some ?cd \<and>
      asyncDispose mock_ffi 0 world_disposed = world_disposed \<and>
      dispose mock_ffi 0 world_disposed = world_disposed"
    using h4 r4 by blast
  show ?thesis
    using c1 c2 c3 c4 c5 by blast
qed

lemma world_sync_disposed_eq:
  "world_sync_disposed =
     \<lparr>conns = [0 \<mapsto> \<lparr>connId = 1, poolId = Some 10, disposed = True, hasError = False,
                       streams = [], transactions = []\<rparr>],
      txs = [0 \<mapsto> \<lparr>txId = ''tx-1'', isolation = READ_COMMITTED, committed = False,
                     rolledBack = True, txConnId = 1, txStreams = []\<rparr>],
      strs = Map.empty,
      trace = [BeginTransaction 1 ''tx-1'' READ_COMMITTED, Disconnect 1]\<rparr>"
  by (simp add: world_sync_disposed_def world_with_transaction_eq eval_defs)

text \<open>
  C4, as the code has it. Asynchronous disposal of a transaction that is still active
  calls \<^verbatim>\<open>streamClose\<close> for the open streams it tracks and then issues exactly one
  rollback call; whatever the boundary answers, the disposal returns and the transaction is
  inactive. Disposal of a transaction that is no longer active issues no commit and no
  rollback call: its boundary calls are the \<^verbatim>\<open>streamClose\<close> calls of the open streams
  it still tracks, one for each, in the order of the set, and nothing else. In both cases
  every stream the transaction tracked is closed afterwards and the transaction tracks none.
  A committed transaction stays committed, and a second disposal changes nothing and calls
  nothing.
\<close>

theorem transaction_dispose_rolls_back_once:
  assumes "txs w t = Some tx"
  shows "(isActive tx \<longrightarrow>
            (\<exists>closes. trace (tx_asyncDispose f t w) =
                         trace w @ closes @ [Rollback (txConnId tx) (txId tx)] \<and>
                       list_all is_close_event closes \<and>
                       (\<forall>r s. r \<in> set (txStreams tx) \<and> strs w r = Some s \<and> \<not> isClosed s \<longrightarrow>
                              StreamClose (cursorId s) \<in> set closes) \<and>
                       (distinct (txStreams tx) \<longrightarrow>
                          filter is_boundary_call closes =
                            map StreamClose (open_cursors w (txStreams tx))))) \<and>
         (\<not> isActive tx \<longrightarrow>
            (\<exists>closes. trace (tx_asyncDispose f t w) = trace w @ closes \<and>
                       list_all is_close_event closes \<and>
                       (\<forall>r s. r \<in> set (txStreams tx) \<and> strs w r = Some s \<and> \<not> isClosed s \<longrightarrow>
                              StreamClose (cursorId s) \<in> set closes) \<and>
                       (distinct (txStreams tx) \<longrightarrow>
                          filter is_boundary_call closes =
                            map StreamClose (open_cursors w (txStreams tx))))) \<and>
         (\<forall>r s. r \<in> set (txStreams tx) \<and> strs w r = Some s \<longrightarrow>
            (\<exists>s'. strs (tx_asyncDispose f t w) r = Some s' \<and> isClosed s')) \<and>
         (\<exists>tx'. txs (tx_asyncDispose f t w) t = Some tx' \<and> \<not> isActive tx' \<and>
                committed tx' = committed tx \<and> txStreams tx' = []) \<and>
         tx_asyncDispose f t (tx_asyncDispose f t w) = tx_asyncDispose f t w"
proof (intro conjI impI)
  assume act: "isActive tx"
  from tx_asyncDispose_active [OF assms act, of f]
  obtain closes where c:
      "trace (tx_asyncDispose f t w) = trace w @ closes @ [Rollback (txConnId tx) (txId tx)]"
      "list_all is_close_event closes"
      "\<forall>r s. r \<in> set (txStreams tx) \<and> strs w r = Some s \<and> \<not> isClosed s \<longrightarrow>
             StreamClose (cursorId s) \<in> set closes"
    by (auto simp: evolves_def)
  obtain tx1 where tx1: "txs (closeAllStreams f t w) t = Some tx1"
      "committed tx1 = committed tx" "rolledBack tx1 = rolledBack tx"
      "txId tx1 = txId tx" "txConnId tx1 = txConnId tx"
    using closeAllStreams_clears [OF assms, of f] by blast
  have tr: "trace (tx_asyncDispose f t w) =
      trace (closeAllStreams f t w) @ [Rollback (txConnId tx) (txId tx)]"
    using tx1 act
    by (simp add: tx_asyncDispose_def Let_def isActive_def rollbackFn_snd set_rolledBack_def
        emit_def)
  have "filter is_boundary_call closes = map StreamClose (open_cursors w (txStreams tx))"
    if d: "distinct (txStreams tx)"
  proof -
    from tr c(1) have "trace (closeAllStreams f t w) = trace w @ closes" by simp
    with closeAllStreams_calls [OF assms d, of f] show ?thesis by simp
  qed
  with c show "\<exists>closes. trace (tx_asyncDispose f t w) =
                   trace w @ closes @ [Rollback (txConnId tx) (txId tx)] \<and>
                 list_all is_close_event closes \<and>
                 (\<forall>r s. r \<in> set (txStreams tx) \<and> strs w r = Some s \<and> \<not> isClosed s \<longrightarrow>
                        StreamClose (cursorId s) \<in> set closes) \<and>
                 (distinct (txStreams tx) \<longrightarrow>
                    filter is_boundary_call closes =
                      map StreamClose (open_cursors w (txStreams tx)))"
    by blast
next
  assume inact: "\<not> isActive tx"
  note eq = tx_asyncDispose_inactive [OF assms inact, of f]
  obtain closes where c: "evolves {} w closes (closeAllStreams f t w)"
      "list_all is_close_event closes"
    using closeAllStreams_evolves by blast
  then have tr: "trace (tx_asyncDispose f t w) = trace w @ closes"
    by (simp add: eq evolves_def)
  have mem: "\<forall>r s. r \<in> set (txStreams tx) \<and> strs w r = Some s \<and> \<not> isClosed s \<longrightarrow>
             StreamClose (cursorId s) \<in> set closes"
    using closeAllStreams_open_streams_closed [OF c(1) assms] by blast
  have "filter is_boundary_call closes = map StreamClose (open_cursors w (txStreams tx))"
    if d: "distinct (txStreams tx)"
    using closeAllStreams_calls [OF assms d, of f] tr by (simp add: eq)
  with tr c(2) mem show "\<exists>closes. trace (tx_asyncDispose f t w) = trace w @ closes \<and>
                 list_all is_close_event closes \<and>
                 (\<forall>r s. r \<in> set (txStreams tx) \<and> strs w r = Some s \<and> \<not> isClosed s \<longrightarrow>
                        StreamClose (cursorId s) \<in> set closes) \<and>
                 (distinct (txStreams tx) \<longrightarrow>
                    filter is_boundary_call closes =
                      map StreamClose (open_cursors w (txStreams tx)))"
    by blast
next
  show "\<forall>r s. r \<in> set (txStreams tx) \<and> strs w r = Some s \<longrightarrow>
          (\<exists>s'. strs (tx_asyncDispose f t w) r = Some s' \<and> isClosed s')"
    using closeAllStreams_closes [OF assms, of _ _ f] tx_asyncDispose_strs [OF assms, of f]
    by auto
next
  obtain tx1 where tx1: "txs (closeAllStreams f t w) t = Some tx1"
      "committed tx1 = committed tx" "rolledBack tx1 = rolledBack tx" "txStreams tx1 = []"
    using closeAllStreams_clears [OF assms, of f] by blast
  then show "\<exists>tx'. txs (tx_asyncDispose f t w) t = Some tx' \<and> \<not> isActive tx' \<and>
                   committed tx' = committed tx \<and> txStreams tx' = []"
    by (auto simp: tx_asyncDispose_def Let_def isActive_def rollbackFn_snd set_rolledBack_def
        emit_def)
next
  show "tx_asyncDispose f t (tx_asyncDispose f t w) = tx_asyncDispose f t w"
    by (rule tx_asyncDispose_idem)
qed

theorem transaction_dispose_rolls_back_once_witness:
  "txs world_tx_stream 0 =
     Some \<lparr>txId = ''tx-1'', isolation = READ_COMMITTED, committed = False, rolledBack = False,
           txConnId = 1, txStreams = [0]\<rparr> \<and>
   strs world_tx_stream 0 =
     Some \<lparr>cursorId = 1, isDone = False, isClosed = False,
           onCloseCallbacks = [UntrackFromConnection 0, UntrackFromTransaction 0]\<rparr> \<and>
   ffi_rollback failing_ffi (trace world_tx_stream @ [StreamClose 1]) 1 ''tx-1'' =
     Some ''connection reset'' \<and>
   (\<exists>closes. trace (tx_asyncDispose failing_ffi 0 world_tx_stream) =
                trace world_tx_stream @ closes @ [Rollback 1 ''tx-1''] \<and>
              list_all is_close_event closes \<and>
              StreamClose 1 \<in> set closes \<and>
              filter is_boundary_call closes = [StreamClose 1]) \<and>
   trace (tx_asyncDispose failing_ffi 0 world_tx_stream) =
     trace world_tx_stream @ [StreamClose 1, Rollback 1 ''tx-1''] \<and>
   txs world_tx_stream_committed 0 =
     Some \<lparr>txId = ''tx-1'', isolation = READ_COMMITTED, committed = True, rolledBack = False,
           txConnId = 1, txStreams = [0]\<rparr> \<and>
   strs world_tx_stream_committed 0 =
     Some \<lparr>cursorId = 1, isDone = False, isClosed = False,
           onCloseCallbacks = [UntrackFromConnection 0, UntrackFromTransaction 0]\<rparr> \<and>
   (\<exists>closes. trace (tx_asyncDispose mock_ffi 0 world_tx_stream_committed) =
                trace world_tx_stream_committed @ closes \<and>
              list_all is_close_event closes \<and>
              StreamClose 1 \<in> set closes \<and>
              filter is_boundary_call closes = [StreamClose 1]) \<and>
   (\<exists>s'. strs (tx_asyncDispose mock_ffi 0 world_tx_stream_committed) 0 = Some s' \<and> isClosed s') \<and>
   tx_asyncDispose mock_ffi 0 (tx_asyncDispose mock_ffi 0 world_tx_stream_committed) =
     tx_asyncDispose mock_ffi 0 world_tx_stream_committed"
proof -
  let ?tx = "\<lparr>txId = ''tx-1'', isolation = READ_COMMITTED, committed = False, rolledBack = False,
              txConnId = 1, txStreams = [0]\<rparr>"
  let ?tc = "\<lparr>txId = ''tx-1'', isolation = READ_COMMITTED, committed = True, rolledBack = False,
              txConnId = 1, txStreams = [0]\<rparr>"
  let ?s = "\<lparr>cursorId = 1, isDone = False, isClosed = False,
             onCloseCallbacks = [UntrackFromConnection 0, UntrackFromTransaction 0]\<rparr>"
  have h1: "txs world_tx_stream 0 = Some ?tx" by (simp add: world_tx_stream_eq)
  have h2: "txs world_tx_stream_committed 0 = Some ?tc" by (simp add: world_tx_stream_committed_eq)
  have s1: "strs world_tx_stream 0 = Some ?s" by (simp add: world_tx_stream_eq)
  have s2: "strs world_tx_stream_committed 0 = Some ?s" by (simp add: world_tx_stream_committed_eq)
  have a: "isActive ?tx" "\<not> isActive ?tc" "txConnId ?tx = 1" "txId ?tx = ''tx-1''"
    "distinct (txStreams ?tx)" "distinct (txStreams ?tc)" "cursorId ?s = 1"
    by (simp_all add: isActive_def)
  have m1: "(0::nat) \<in> set (txStreams ?tx) \<and> strs world_tx_stream 0 = Some ?s \<and> \<not> isClosed ?s"
    using s1 by simp
  have m2: "(0::nat) \<in> set (txStreams ?tc) \<and> strs world_tx_stream_committed 0 = Some ?s \<and>
            \<not> isClosed ?s"
    using s2 by simp
  have m3: "(0::nat) \<in> set (txStreams ?tc) \<and> strs world_tx_stream_committed 0 = Some ?s"
    using s2 by simp
  have o1: "open_cursors world_tx_stream (txStreams ?tx) = [1]" using s1 by simp
  have o2: "open_cursors world_tx_stream_committed (txStreams ?tc) = [1]" using s2 by simp
  have f: "ffi_rollback failing_ffi (trace world_tx_stream @ [StreamClose 1]) 1 ''tx-1'' =
     Some ''connection reset''"
    by (simp add: failing_ffi_def)
  from transaction_dispose_rolls_back_once [OF h1, of failing_ffi] a(1)
  obtain c1 where c1:
      "trace (tx_asyncDispose failing_ffi 0 world_tx_stream) =
         trace world_tx_stream @ c1 @ [Rollback (txConnId ?tx) (txId ?tx)]"
      "list_all is_close_event c1"
      "\<forall>r s. r \<in> set (txStreams ?tx) \<and> strs world_tx_stream r = Some s \<and> \<not> isClosed s \<longrightarrow>
             StreamClose (cursorId s) \<in> set c1"
      "distinct (txStreams ?tx) \<longrightarrow>
         filter is_boundary_call c1 = map StreamClose (open_cursors world_tx_stream (txStreams ?tx))"
    by blast
  from c1(3) m1 have "StreamClose (cursorId ?s) \<in> set c1" by blast
  moreover from c1(4) a(5) o1 have "filter is_boundary_call c1 = [StreamClose 1]" by simp
  ultimately have r1: "\<exists>closes. trace (tx_asyncDispose failing_ffi 0 world_tx_stream) =
                trace world_tx_stream @ closes @ [Rollback 1 ''tx-1''] \<and>
              list_all is_close_event closes \<and>
              StreamClose 1 \<in> set closes \<and>
              filter is_boundary_call closes = [StreamClose 1]"
    using c1(1,2) a(3,4,7) by (intro exI [of _ c1]) simp
  note main = transaction_dispose_rolls_back_once [OF h2, of mock_ffi]
  from main a(2)
  obtain c2 where c2:
      "trace (tx_asyncDispose mock_ffi 0 world_tx_stream_committed) =
         trace world_tx_stream_committed @ c2"
      "list_all is_close_event c2"
      "\<forall>r s. r \<in> set (txStreams ?tc) \<and> strs world_tx_stream_committed r = Some s \<and>
             \<not> isClosed s \<longrightarrow> StreamClose (cursorId s) \<in> set c2"
      "distinct (txStreams ?tc) \<longrightarrow>
         filter is_boundary_call c2 =
           map StreamClose (open_cursors world_tx_stream_committed (txStreams ?tc))"
    by blast
  from c2(3) m2 have "StreamClose (cursorId ?s) \<in> set c2" by blast
  moreover from c2(4) a(6) o2 have "filter is_boundary_call c2 = [StreamClose 1]" by simp
  ultimately have r2: "\<exists>closes. trace (tx_asyncDispose mock_ffi 0 world_tx_stream_committed) =
                trace world_tx_stream_committed @ closes \<and>
              list_all is_close_event closes \<and>
              StreamClose 1 \<in> set closes \<and>
              filter is_boundary_call closes = [StreamClose 1]"
    using c2(1,2) a(7) by (intro exI [of _ c2]) simp
  from main m3
  have r4: "\<exists>s'. strs (tx_asyncDispose mock_ffi 0 world_tx_stream_committed) 0 = Some s' \<and>
                 isClosed s'"
    by blast
  from main
  have r3: "tx_asyncDispose mock_ffi 0 (tx_asyncDispose mock_ffi 0 world_tx_stream_committed) =
     tx_asyncDispose mock_ffi 0 world_tx_stream_committed"
    by blast
  show ?thesis
    using h1 h2 s1 s2 f r1 r2 r3 r4 dispose_tx_stream(4) by blast
qed

text \<open>
  The claim as stated fails twice. A transaction that was committed while it tracked an
  open stream makes one boundary call, \<^verbatim>\<open>streamClose\<close>, when it is disposed. And a
  transaction that was never committed or rolled back explicitly, but whose connection was
  disposed synchronously (which marks it rolled back without a call), issues no rollback when
  it is disposed.
\<close>

theorem dispose_after_commit_closes_stream_counterexample:
  "map_option committed (txs world_tx_stream_committed 0) = Some True \<and>
   trace (tx_asyncDispose mock_ffi 0 world_tx_stream_committed) =
     trace world_tx_stream_committed @ [StreamClose 1] \<and>
   trace world_with_transaction = [BeginTransaction 1 ''tx-1'' READ_COMMITTED] \<and>
   world_sync_disposed = dispose mock_ffi 0 world_with_transaction \<and>
   trace (tx_asyncDispose mock_ffi 0 world_sync_disposed) =
     [BeginTransaction 1 ''tx-1'' READ_COMMITTED, Disconnect 1]"
  using dispose_tx_stream(5)
  by (simp add: world_tx_stream_committed_eq world_with_transaction_eq world_sync_disposed_eq
      world_sync_disposed_def [symmetric] eval_defs)

text \<open>
  C5. Asynchronous disposal of an active transaction calls \<^verbatim>\<open>streamClose\<close> for every
  open stream the transaction tracks and only then \<^verbatim>\<open>rollback\<close>. Asynchronous disposal
  of a connection that owns the transaction does the same: the rollback of the transaction
  is preceded by the \<^verbatim>\<open>streamClose\<close> of each of its open streams, and by nothing but
  stream closes and the rollbacks of the connection's other transactions. The disposal
  issues no commit: all it emits are stream closes, rollbacks, and the final
  \<^verbatim>\<open>poolRelease\<close> or \<^verbatim>\<open>disconnect\<close>.
\<close>

theorem streams_closed_before_rollback:
  assumes "txs w t = Some tx" and "isActive tx"
  shows "(\<exists>closes. trace (tx_asyncDispose f t w) =
                      trace w @ closes @ [Rollback (txConnId tx) (txId tx)] \<and>
                    list_all is_close_event closes \<and>
                    (\<forall>r s. r \<in> set (txStreams tx) \<and> strs w r = Some s \<and> \<not> isClosed s \<longrightarrow>
                           StreamClose (cursorId s) \<in> set closes)) \<and>
         (\<forall>c cn. conns w c = Some cn \<and> \<not> disposed cn \<and> t \<in> set (transactions cn) \<longrightarrow>
            (\<exists>pre post.
               trace (asyncDispose f c w) = trace w @ pre @ Rollback (txConnId tx) (txId tx) # post \<and>
               (\<forall>r s. r \<in> set (txStreams tx) \<and> strs w r = Some s \<and> \<not> isClosed s \<longrightarrow>
                      StreamClose (cursorId s) \<in> set pre) \<and>
               (\<forall>e\<in>set pre. is_close_event e \<or>
                  (\<exists>t' tx'. t' \<in> set (transactions cn) \<and> t' \<noteq> t \<and> txs w t' = Some tx' \<and>
                            e = Rollback (txConnId tx') (txId tx')))) \<and>
            (\<exists>evs final. trace (asyncDispose f c w) = trace w @ evs @ [final] \<and>
               list_all is_cleanup_event evs \<and>
               (final = Disconnect (connId cn) \<or> (\<exists>p. final = PoolRelease p (connId cn)))))"
proof (intro conjI allI impI)
  from tx_asyncDispose_active [OF assms, of f]
  show "\<exists>closes. trace (tx_asyncDispose f t w) =
                    trace w @ closes @ [Rollback (txConnId tx) (txId tx)] \<and>
                  list_all is_close_event closes \<and>
                  (\<forall>r s. r \<in> set (txStreams tx) \<and> strs w r = Some s \<and> \<not> isClosed s \<longrightarrow>
                         StreamClose (cursorId s) \<in> set closes)"
    by (auto simp: evolves_def)
next
  fix c cn assume h: "conns w c = Some cn \<and> \<not> disposed cn \<and> t \<in> set (transactions cn)"
  let ?wd = "set_disposed c w"
  have d: "conns ?wd c = Some (cn\<lparr>disposed := True\<rparr>)" "trace ?wd = trace w" "txs ?wd = txs w"
      "strs ?wd = strs w"
    using set_disposed_props [of w c cn] h by simp_all
  have mem: "t \<in> set (transactions (cn\<lparr>disposed := True\<rparr>))" using h by simp
  have tx: "txs ?wd t = Some tx" using assms(1) d by simp
  from cleanup_order [OF d(1) mem tx assms(2), of f]
  obtain pre post where o:
      "trace (cleanup f c ?wd) = trace w @ pre @ Rollback (txConnId tx) (txId tx) # post"
      "\<forall>r s. r \<in> set (txStreams tx) \<and> strs w r = Some s \<and> \<not> isClosed s \<longrightarrow>
             StreamClose (cursorId s) \<in> set pre"
      "\<forall>e\<in>set pre. is_close_event e \<or>
         (\<exists>t' tx'. t' \<in> set (transactions cn) \<and> t' \<noteq> t \<and> txs w t' = Some tx' \<and>
                   e = Rollback (txConnId tx') (txId tx'))"
    using d by auto
  have "\<exists>last. asyncDispose f c w = emit last (cleanup f c ?wd)"
  proof -
    obtain evs where "evolves UNIV ?wd evs (cleanup f c ?wd)" using cleanup_evolves by blast
    from evolves_conn [OF this d(1)] obtain cn2 where "conns (cleanup f c ?wd) c = Some cn2"
      by blast
    with h show ?thesis
      by (auto simp: asyncDispose_def release_or_disconnect_def split: option.splits)
  qed
  then obtain last where "trace (asyncDispose f c w) =
      trace w @ pre @ Rollback (txConnId tx) (txId tx) # (post @ [last])"
    using o(1) by (auto simp: emit_def)
  with o(2,3)
  show "\<exists>pre post.
          trace (asyncDispose f c w) = trace w @ pre @ Rollback (txConnId tx) (txId tx) # post \<and>
          (\<forall>r s. r \<in> set (txStreams tx) \<and> strs w r = Some s \<and> \<not> isClosed s \<longrightarrow>
                 StreamClose (cursorId s) \<in> set pre) \<and>
          (\<forall>e\<in>set pre. is_close_event e \<or>
             (\<exists>t' tx'. t' \<in> set (transactions cn) \<and> t' \<noteq> t \<and> txs w t' = Some tx' \<and>
                       e = Rollback (txConnId tx') (txId tx')))"
    by blast
next
  fix c cn assume h: "conns w c = Some cn \<and> \<not> disposed cn \<and> t \<in> set (transactions cn)"
  then have "conns w c = Some cn" "\<not> disposed cn" by simp_all
  from asyncDispose_trace [OF this, of f]
  show "\<exists>evs final. trace (asyncDispose f c w) = trace w @ evs @ [final] \<and>
          list_all is_cleanup_event evs \<and>
          (final = Disconnect (connId cn) \<or> (\<exists>p. final = PoolRelease p (connId cn)))"
    by (cases "poolId cn") auto
qed

theorem streams_closed_before_rollback_witness:
  "txs world_tx_stream 0 =
     Some \<lparr>txId = ''tx-1'', isolation = READ_COMMITTED, committed = False, rolledBack = False,
           txConnId = 1, txStreams = [0]\<rparr> \<and>
   strs world_tx_stream 0 =
     Some \<lparr>cursorId = 1, isDone = False, isClosed = False,
           onCloseCallbacks = [UntrackFromConnection 0, UntrackFromTransaction 0]\<rparr> \<and>
   conns world_tx_stream 0 =
     Some \<lparr>connId = 1, poolId = Some 10, disposed = False, hasError = False, streams = [0],
           transactions = [0]\<rparr> \<and>
   (\<exists>closes. trace (tx_asyncDispose mock_ffi 0 world_tx_stream) =
                trace world_tx_stream @ closes @ [Rollback 1 ''tx-1''] \<and>
              StreamClose 1 \<in> set closes) \<and>
   (\<exists>pre post. trace (asyncDispose mock_ffi 0 world_tx_stream) =
                  trace world_tx_stream @ pre @ Rollback 1 ''tx-1'' # post \<and>
                StreamClose 1 \<in> set pre) \<and>
   trace (asyncDispose mock_ffi 0 world_tx_stream) =
     trace world_tx_stream @ [StreamClose 1, Rollback 1 ''tx-1'', PoolRelease 10 1]"
proof -
  let ?tx = "\<lparr>txId = ''tx-1'', isolation = READ_COMMITTED, committed = False, rolledBack = False,
              txConnId = 1, txStreams = [0]\<rparr>"
  let ?s = "\<lparr>cursorId = 1, isDone = False, isClosed = False,
             onCloseCallbacks = [UntrackFromConnection 0, UntrackFromTransaction 0]\<rparr>"
  let ?cn = "\<lparr>connId = 1, poolId = Some 10, disposed = False, hasError = False, streams = [0],
              transactions = [0]\<rparr>"
  have h1: "txs world_tx_stream 0 = Some ?tx" by (simp add: world_tx_stream_eq)
  have h2: "isActive ?tx" by (simp add: isActive_def)
  have h3: "strs world_tx_stream 0 = Some ?s" by (simp add: world_tx_stream_eq)
  have h4: "conns world_tx_stream 0 = Some ?cn" by (simp add: world_tx_stream_eq)
  have a: "(0::nat) \<in> set (txStreams ?tx) \<and> strs world_tx_stream 0 = Some ?s \<and> \<not> isClosed ?s"
    "conns world_tx_stream 0 = Some ?cn \<and> \<not> disposed ?cn \<and> (0::nat) \<in> set (transactions ?cn)"
    using h3 h4 by simp_all
  have ids: "txConnId ?tx = 1" "txId ?tx = ''tx-1''" "cursorId ?s = 1" by simp_all
  note main = streams_closed_before_rollback [OF h1 h2, of mock_ffi]
  from main obtain closes where c:
    "trace (tx_asyncDispose mock_ffi 0 world_tx_stream) =
       trace world_tx_stream @ closes @ [Rollback (txConnId ?tx) (txId ?tx)]"
    "\<forall>r s. r \<in> set (txStreams ?tx) \<and> strs world_tx_stream r = Some s \<and> \<not> isClosed s \<longrightarrow>
           StreamClose (cursorId s) \<in> set closes"
    by blast
  from c(2) a(1) have "StreamClose (cursorId ?s) \<in> set closes" by blast
  with c(1) have r1: "\<exists>closes. trace (tx_asyncDispose mock_ffi 0 world_tx_stream) =
                trace world_tx_stream @ closes @ [Rollback 1 ''tx-1''] \<and>
              StreamClose 1 \<in> set closes"
    unfolding ids by blast
  from main a(2) obtain pre post where p:
    "trace (asyncDispose mock_ffi 0 world_tx_stream) =
       trace world_tx_stream @ pre @ Rollback (txConnId ?tx) (txId ?tx) # post"
    "\<forall>r s. r \<in> set (txStreams ?tx) \<and> strs world_tx_stream r = Some s \<and> \<not> isClosed s \<longrightarrow>
           StreamClose (cursorId s) \<in> set pre"
    by blast
  from p(2) a(1) have "StreamClose (cursorId ?s) \<in> set pre" by blast
  with p(1) have r2: "\<exists>pre post. trace (asyncDispose mock_ffi 0 world_tx_stream) =
                  trace world_tx_stream @ pre @ Rollback 1 ''tx-1'' # post \<and>
                StreamClose 1 \<in> set pre"
    unfolding ids by blast
  show ?thesis
    using h1 h3 h4 r1 r2 dispose_tx_stream(1) by simp
qed
section \<open>Command codec: parameters\<close>





lemma map_entries_total:
  "(\<And>x. x \<in> set xs \<Longrightarrow> \<exists>y. g x = Inr y) \<Longrightarrow> \<exists>ys. map_entries g xs = Inr ys"
  by (induction xs) (fastforce split: sum.splits)+







section \<open>Command codec: base64 round trip\<close>
























section \<open>Pools: reference counting\<close>

lemma open_registered:
  assumes "registry b k = Some h" and "pools b h = Some p" and "h \<noteq> INVALID_HANDLE"
    and "\<forall>cfg\<in>set cfgs. dedup_key cfg = k"
  shows "open_pools connectable cfgs b =
           (Some (replicate (length cfgs) \<lparr>pool_poolId = h, pool_closed = False\<rparr>),
            b\<lparr>pools := (pools b)(h \<mapsto> p\<lparr>ref_count := ref_count p + length cfgs\<rparr>)\<rparr>)"
  using assms
proof (induction cfgs arbitrary: b p)
  case Nil
  then show ?case by (simp add: map_upd_triv)
next
  case (Cons cfg cfgs)
  let ?b1 = "b\<lparr>pools := (pools b)(h \<mapsto> p\<lparr>ref_count := ref_count p + 1\<rparr>)\<rparr>"
  have first: "createPool connectable cfg b = (Inr \<lparr>pool_poolId = h, pool_closed = False\<rparr>, ?b1)"
    using Cons.prems by (simp add: createPool_def ffi_poolCreate_def)
  have "open_pools connectable cfgs ?b1 =
      (Some (replicate (length cfgs) \<lparr>pool_poolId = h, pool_closed = False\<rparr>),
       ?b1\<lparr>pools := (pools ?b1)(h \<mapsto>
              (p\<lparr>ref_count := ref_count p + 1\<rparr>)\<lparr>ref_count := ref_count (p\<lparr>ref_count := ref_count p + 1\<rparr>) + length cfgs\<rparr>)\<rparr>)"
    using Cons.prems by (intro Cons.IH) simp_all
  with first show ?case by (simp add: fun_eq_iff)
qed

lemma close_some:
  assumes "pools b h = Some p" and "j < ref_count p"
  shows "close_pools (replicate j \<lparr>pool_poolId = h, pool_closed = False\<rparr>) b =
           b\<lparr>pools := (pools b)(h \<mapsto> p\<lparr>ref_count := ref_count p - j\<rparr>)\<rparr>"
  using assms
proof (induction j arbitrary: b p)
  case 0
  then show ?case by (simp add: close_pools_def map_upd_triv)
next
  case (Suc j)
  let ?b1 = "b\<lparr>pools := (pools b)(h \<mapsto> p\<lparr>ref_count := ref_count p - 1\<rparr>)\<rparr>"
  have step: "snd (pool_close \<lparr>pool_poolId = h, pool_closed = False\<rparr> b) = ?b1"
    using Suc.prems by (simp add: pool_close_def ffi_poolClose_def Let_def)
  have "close_pools (replicate j \<lparr>pool_poolId = h, pool_closed = False\<rparr>) ?b1 =
      ?b1\<lparr>pools := (pools ?b1)(h \<mapsto>
             (p\<lparr>ref_count := ref_count p - 1\<rparr>)\<lparr>ref_count := ref_count (p\<lparr>ref_count := ref_count p - 1\<rparr>) - j\<rparr>)\<rparr>"
    using Suc.prems by (intro Suc.IH) simp_all
  with step show ?case by (simp add: close_pools_def fun_eq_iff)
qed

lemma close_last:
  assumes "pools b h = Some p" and "ref_count p = 1"
  shows "snd (pool_close \<lparr>pool_poolId = h, pool_closed = False\<rparr> b) =
           b\<lparr>pools := (pools b)(h := None), registry := (registry b)(bp_key p := None),
              pool_log := pool_log b @ [PoolDestroyed h]\<rparr>"
  using assms by (simp add: pool_close_def ffi_poolClose_def)

lemma close_pools_append: "close_pools (ps @ qs) b = close_pools qs (close_pools ps b)"
  by (simp add: close_pools_def)

text \<open>
  C2. Let \<open>N \<ge> 1\<close> configurations share one dedup key that is not registered, and let
  the boundary be able to create the pool. Then the \<open>N\<close> opens succeed, every handle
  carries the same pool id, and one boundary pool is created. Closing fewer than \<open>N\<close>
  of the handles destroys nothing: the key stays registered, with a reference count of
  \<open>N\<close> less the number of closes. Closing all \<open>N\<close> destroys the boundary pool
  exactly once, at the last close, and deregisters the key.
\<close>

theorem shared_pool_destroyed_once:
  assumes "cfgs \<noteq> []" and "\<forall>cfg\<in>set cfgs. dedup_key cfg = k"
    and "registry b k = None" and "next_handle b \<noteq> INVALID_HANDLE"
    and "connectable (hd cfgs)"
  shows "\<exists>ps b'. open_pools connectable cfgs b = (Some ps, b') \<and>
           length ps = length cfgs \<and>
           (\<forall>p\<in>set ps. pool_poolId p = next_handle b \<and> \<not> pool_closed p) \<and>
           pool_log b' = pool_log b @ [PoolCreated (next_handle b)] \<and>
           (\<forall>j<length cfgs.
              pool_log (close_pools (take j ps) b') = pool_log b' \<and>
              registry (close_pools (take j ps) b') k = Some (next_handle b) \<and>
              map_option ref_count (pools (close_pools (take j ps) b') (next_handle b)) =
                Some (length cfgs - j)) \<and>
           pool_log (close_pools ps b') = pool_log b' @ [PoolDestroyed (next_handle b)] \<and>
           registry (close_pools ps b') k = None \<and>
           pools (close_pools ps b') (next_handle b) = None"
proof -
  obtain cfg rest where cfgs: "cfgs = cfg # rest" using assms(1) by (cases cfgs) auto
  let ?h = "next_handle b"
  let ?p1 = "\<lparr>bp_key = k, bp_config = cfg, ref_count = 1\<rparr>"
  let ?b1 = "b\<lparr>registry := (registry b)(k \<mapsto> ?h), pools := (pools b)(?h \<mapsto> ?p1),
               next_handle := ?h + 1, pool_log := pool_log b @ [PoolCreated ?h]\<rparr>"
  let ?mp = "\<lparr>pool_poolId = ?h, pool_closed = False\<rparr>"
  let ?n = "length cfgs"
  have key: "dedup_key cfg = k" using assms(2) cfgs by simp
  have first: "createPool connectable cfg b = (Inr ?mp, ?b1)"
    using assms(3,4,5) cfgs key by (simp add: createPool_def ffi_poolCreate_def Let_def)
  have rest: "open_pools connectable rest ?b1 =
      (Some (replicate (length rest) ?mp),
       ?b1\<lparr>pools := (pools ?b1)(?h \<mapsto> ?p1\<lparr>ref_count := ref_count ?p1 + length rest\<rparr>)\<rparr>)"
    using assms(2,4) cfgs by (intro open_registered [where k = k]) simp_all
  let ?pn = "\<lparr>bp_key = k, bp_config = cfg, ref_count = ?n\<rparr>"
  let ?b' = "?b1\<lparr>pools := (pools ?b1)(?h \<mapsto> ?pn)\<rparr>"
  let ?ps = "replicate ?n ?mp"
  have opened: "open_pools connectable cfgs b = (Some ?ps, ?b')"
    using first rest cfgs by simp
  have pb': "pools ?b' ?h = Some ?pn" by simp
  have partial: "close_pools (take j ?ps) ?b' =
      ?b'\<lparr>pools := (pools ?b')(?h \<mapsto> ?pn\<lparr>ref_count := ?n - j\<rparr>)\<rparr>" if "j < ?n" for j
    using close_some [OF pb', of j] that by (simp add: min_def)
  have n_pos: "0 < ?n" using assms(1) by simp
  let ?b2 = "?b'\<lparr>pools := (pools ?b')(?h \<mapsto> ?pn\<lparr>ref_count := 1\<rparr>)\<rparr>"
  have before_last: "close_pools (replicate (?n - 1) ?mp) ?b' = ?b2"
    using close_some [OF pb', of "?n - 1"] n_pos by simp
  have split: "?ps = replicate (?n - 1) ?mp @ [?mp]"
    using n_pos by (metis Suc_pred' replicate_append_same replicate_Suc)
  have "close_pools ?ps ?b' = close_pools [?mp] (close_pools (replicate (?n - 1) ?mp) ?b')"
    by (subst split) (rule close_pools_append)
  also have "\<dots> = close_pools [?mp] ?b2"
    by (simp only: before_last)
  also have "\<dots> = snd (pool_close ?mp ?b2)"
    by (simp add: close_pools_def)
  also have "\<dots> = ?b2\<lparr>pools := (pools ?b2)(?h := None),
                       registry := (registry ?b2)(bp_key (?pn\<lparr>ref_count := 1\<rparr>) := None),
                       pool_log := pool_log ?b2 @ [PoolDestroyed ?h]\<rparr>"
    by (rule close_last) simp_all
  finally have all_closed: "close_pools ?ps ?b' =
      ?b2\<lparr>pools := (pools ?b2)(?h := None),
           registry := (registry ?b2)(bp_key (?pn\<lparr>ref_count := 1\<rparr>) := None),
           pool_log := pool_log ?b2 @ [PoolDestroyed ?h]\<rparr>" .
  show ?thesis
  proof (intro exI conjI)
    show "open_pools connectable cfgs b = (Some ?ps, ?b')" by (rule opened)
    show "length ?ps = length cfgs" by simp
    show "\<forall>p\<in>set ?ps. pool_poolId p = ?h \<and> \<not> pool_closed p" by simp
    show "pool_log ?b' = pool_log b @ [PoolCreated ?h]" by simp
    show "\<forall>j<length cfgs.
            pool_log (close_pools (take j ?ps) ?b') = pool_log ?b' \<and>
            registry (close_pools (take j ?ps) ?b') k = Some ?h \<and>
            map_option ref_count (pools (close_pools (take j ?ps) ?b') ?h) = Some (length cfgs - j)"
      using partial by simp
    show "pool_log (close_pools ?ps ?b') = pool_log ?b' @ [PoolDestroyed ?h]"
      by (subst all_closed) simp
    show "registry (close_pools ?ps ?b') k = None" by (subst all_closed) simp
    show "pools (close_pools ?ps ?b') ?h = None" by (subst all_closed) simp
  qed
qed

theorem shared_pool_destroyed_once_witness:
  "[config_a, config_a_tuned, config_a] \<noteq> [] \<and>
   dedup_key config_a_tuned = dedup_key config_a \<and>
   config_a_tuned \<noteq> config_a \<and>
   registry empty_boundary (dedup_key config_a) = None \<and>
   next_handle empty_boundary \<noteq> INVALID_HANDLE \<and>
   always_connectable (hd [config_a, config_a_tuned, config_a]) \<and>
   (\<exists>ps b'. open_pools always_connectable [config_a, config_a_tuned, config_a] empty_boundary =
               (Some ps, b') \<and>
            map pool_poolId ps = [1, 1, 1] \<and>
            pool_log b' = [PoolCreated 1] \<and>
            pool_log (close_pools (take 2 ps) b') = [PoolCreated 1] \<and>
            registry (close_pools (take 2 ps) b') (dedup_key config_a) = Some 1 \<and>
            pool_log (close_pools ps b') = [PoolCreated 1, PoolDestroyed 1] \<and>
            registry (close_pools ps b') (dedup_key config_a) = None)"
proof -
  let ?cfgs = "[config_a, config_a_tuned, config_a]"
  have h1: "?cfgs \<noteq> []" by simp
  have same: "dedup_key config_a_tuned = dedup_key config_a"
    by (simp add: dedup_key_def config_a_tuned_def)
  have h2: "\<forall>cfg\<in>set ?cfgs. dedup_key cfg = dedup_key config_a" using same by simp
  have h3: "registry empty_boundary (dedup_key config_a) = None" by (simp add: empty_boundary_def)
  have h4: "next_handle empty_boundary \<noteq> INVALID_HANDLE"
    by (simp add: empty_boundary_def INVALID_HANDLE_def)
  have h5: "always_connectable (hd ?cfgs)" by (simp add: always_connectable_def)
  have differ: "config_a_tuned \<noteq> config_a"
  proof
    assume "config_a_tuned = config_a"
    then have "request_timeout_ms config_a_tuned = request_timeout_ms config_a" by simp
    then show False by (simp add: config_a_tuned_def config_a_def)
  qed
  have nh: "next_handle empty_boundary = 1" "pool_log empty_boundary = []"
    by (simp_all add: empty_boundary_def)
  from shared_pool_destroyed_once
         [of "[config_a, config_a_tuned, config_a]" "dedup_key config_a" empty_boundary
             always_connectable, OF h1 h2 h3 h4 h5]
  obtain ps b' where r:
    "open_pools always_connectable ?cfgs empty_boundary = (Some ps, b')"
    "length ps = length ?cfgs"
    "\<forall>p\<in>set ps. pool_poolId p = next_handle empty_boundary \<and> \<not> pool_closed p"
    "pool_log b' = pool_log empty_boundary @ [PoolCreated (next_handle empty_boundary)]"
    "\<forall>j<length ?cfgs.
       pool_log (close_pools (take j ps) b') = pool_log b' \<and>
       registry (close_pools (take j ps) b') (dedup_key config_a) =
         Some (next_handle empty_boundary) \<and>
       map_option ref_count (pools (close_pools (take j ps) b') (next_handle empty_boundary)) =
         Some (length ?cfgs - j)"
    "pool_log (close_pools ps b') = pool_log b' @ [PoolDestroyed (next_handle empty_boundary)]"
    "registry (close_pools ps b') (dedup_key config_a) = None"
    by blast
  from r(2) obtain p1 p2 p3 where ps: "ps = [p1, p2, p3]"
    by (auto simp: length_Suc_conv numeral_3_eq_3)
  with r(3) have ids: "map pool_poolId ps = [1, 1, 1]" by (simp add: nh)
  from r(5) have two:
    "pool_log (close_pools (take 2 ps) b') = pool_log b' \<and>
     registry (close_pools (take 2 ps) b') (dedup_key config_a) = Some (next_handle empty_boundary)"
    by simp
  have "open_pools always_connectable ?cfgs empty_boundary = (Some ps, b') \<and>
        map pool_poolId ps = [1, 1, 1] \<and>
        pool_log b' = [PoolCreated 1] \<and>
        pool_log (close_pools (take 2 ps) b') = [PoolCreated 1] \<and>
        registry (close_pools (take 2 ps) b') (dedup_key config_a) = Some 1 \<and>
        pool_log (close_pools ps b') = [PoolCreated 1, PoolDestroyed 1] \<and>
        registry (close_pools ps b') (dedup_key config_a) = None"
    using r(1,4,6,7) ids two by (simp add: nh)
  then have opened:
    "\<exists>ps b'. open_pools always_connectable ?cfgs empty_boundary = (Some ps, b') \<and>
        map pool_poolId ps = [1, 1, 1] \<and>
        pool_log b' = [PoolCreated 1] \<and>
        pool_log (close_pools (take 2 ps) b') = [PoolCreated 1] \<and>
        registry (close_pools (take 2 ps) b') (dedup_key config_a) = Some 1 \<and>
        pool_log (close_pools ps b') = [PoolCreated 1, PoolDestroyed 1] \<and>
        registry (close_pools ps b') (dedup_key config_a) = None"
    by (intro exI)
  show ?thesis
    by (intro conjI) (rule h1 same differ h3 h4 h5 opened)+
qed

end
